theory Spec2Isabelle
  imports Complex_Main
begin

section \<open>Python values\<close>

text \<open>
  The recorder of \<^verbatim>\<open>metrics_logger.py\<close> keeps its state in dictionaries whose values
  are dynamically typed (\<^verbatim>\<open>Dict[str, Any]\<close>), and the caller's overlay can store any
  value under any key. The model therefore carries a datatype of Python values and writes
  out where an operation of the source raises.

  Numbers: a finite \<^verbatim>\<open>int\<close> or \<^verbatim>\<open>float\<close> is the real number it denotes, and
  \<^verbatim>\<open>float('inf')\<close> is a value of its own. Comparisons are exact, as they are in Python
  (also between an \<^verbatim>\<open>int\<close> and a \<^verbatim>\<open>float\<close>). What \<^verbatim>\<open>sum\<close>, \<^verbatim>\<open>/\<close> and
  \<^verbatim>\<open>total_seconds()\<close> return is not computed by the model: it depends on whether the
  operands are ints or floats, on the rounding of binary floating point and on the
  summation algorithm of the interpreter, so the model takes these results from the
  environment of the call (below). The values \<^verbatim>\<open>nan\<close> and \<^verbatim>\<open>-inf\<close> are outside the
  model.
\<close>

datatype xnum = Fin real | PInf

instantiation xnum :: linorder
begin

fun less_eq_xnum :: "xnum \<Rightarrow> xnum \<Rightarrow> bool" where
  "less_eq_xnum (Fin a) (Fin b) = (a \<le> b)"
| "less_eq_xnum PInf (Fin b) = False"
| "less_eq_xnum x PInf = True"

definition less_xnum :: "xnum \<Rightarrow> xnum \<Rightarrow> bool" where
  "less_xnum x y = (x \<le> y \<and> \<not> y \<le> x)"

instance
proof
  fix x y z :: xnum
  show "(x < y) = (x \<le> y \<and> \<not> y \<le> x)"
    by (simp add: less_xnum_def)
  show "x \<le> x"
    by (cases x) simp_all
  show "x \<le> y \<Longrightarrow> y \<le> z \<Longrightarrow> x \<le> z"
    by (cases x; cases y; cases z) simp_all
  show "x \<le> y \<Longrightarrow> y \<le> x \<Longrightarrow> x = y"
    by (cases x; cases y) simp_all
  show "x \<le> y \<or> y \<le> x"
    by (cases x; cases y) auto
qed

end

text \<open>
  A wall-clock reading, as \<^verbatim>\<open>datetime.now()\<close> returns it: its position on the local
  time line in seconds, and its rendering under \<^verbatim>\<open>strftime("%Y%m%d_%H%M%S")\<close>. Each
  operation that reads the clock takes the reading as an argument.
\<close>

datatype datetime = DateTime (instant: real) (ymd_hms: string)

datatype pyval =
    VNone
  | VBool bool
  | VNum real
  | VInf
  | VStr string
  | VTime datetime
  | VDict "(string \<times> pyval) list"

type_synonym dict = "string \<Rightarrow> pyval option"

datatype error =
  KeyError | TypeError | ValueError | ZeroDivisionError | OverflowError | OSError

text \<open>The number a value denotes in a comparison or a sum (\<^verbatim>\<open>bool\<close> is a subclass of
  \<^verbatim>\<open>int\<close>); \<open>None\<close> for a value that is not a number.\<close>

fun num_of :: "pyval \<Rightarrow> xnum option" where
  "num_of (VBool b) = Some (Fin (if b then 1 else 0))"
| "num_of (VNum r) = Some (Fin r)"
| "num_of VInf = Some PInf"
| "num_of VNone = None"
| "num_of (VStr s) = None"
| "num_of (VTime t) = None"
| "num_of (VDict kvs) = None"

fun val_of :: "xnum \<Rightarrow> pyval" where
  "val_of (Fin r) = VNum r"
| "val_of PInf = VInf"

text \<open>Truth value of an object in a condition (\<^verbatim>\<open>if x:\<close>).\<close>

fun truthy :: "pyval \<Rightarrow> bool" where
  "truthy VNone = False"
| "truthy (VBool b) = b"
| "truthy (VNum r) = (r \<noteq> 0)"
| "truthy VInf = True"
| "truthy (VStr s) = (s \<noteq> [])"
| "truthy (VTime t) = True"
| "truthy (VDict kvs) = (kvs \<noteq> [])"

text \<open>
  \<^verbatim>\<open>a > b\<close> and \<^verbatim>\<open>a < b\<close>. Every comparison of the source has a number on one side
  (a literal, or a value that has just passed \<^verbatim>\<open>> 0\<close>); with a number on one side
  Python answers for two numbers and raises \<^verbatim>\<open>TypeError\<close> for anything else.
\<close>

definition py_gt :: "pyval \<Rightarrow> pyval \<Rightarrow> error + bool" where
  "py_gt a b = (case (num_of a, num_of b) of
      (Some x, Some y) \<Rightarrow> Inr (y < x)
    | _ \<Rightarrow> Inl TypeError)"

definition py_lt :: "pyval \<Rightarrow> pyval \<Rightarrow> error + bool" where
  "py_lt a b = (case (num_of a, num_of b) of
      (Some x, Some y) \<Rightarrow> Inr (x < y)
    | _ \<Rightarrow> Inl TypeError)"

text \<open>\<^verbatim>\<open>v == float('inf')\<close>: never raises.\<close>

definition is_inf :: "pyval \<Rightarrow> bool" where
  "is_inf v = (num_of v = Some PInf)"

text \<open>\<^verbatim>\<open>v + 1\<close>, as \<^verbatim>\<open>+= 1\<close> computes it on the counters, which \<^verbatim>\<open>start_session\<close>
  makes ints.\<close>

definition add_one :: "pyval \<Rightarrow> error + pyval" where
  "add_one v = (case num_of v of
      Some (Fin r) \<Rightarrow> Inr (VNum (r + 1))
    | Some PInf \<Rightarrow> Inr VInf
    | None \<Rightarrow> Inl TypeError)"

text \<open>
  Whether \<^verbatim>\<open>f"{v:.2f}"\<close> formats. A float does, and so does an int that converts to a
  float: the conversion rounds to the nearest double, and an int raises
  \<^verbatim>\<open>OverflowError\<close> when that rounding leaves the range of the doubles, which it does
  from \<open>2\<^sup>1\<^sup>0\<^sup>2\<^sup>4 - 2\<^sup>9\<^sup>7\<^sup>0\<close> on (a number of that size is an int: no finite
  float is as large). A datetime reads the format as a \<^verbatim>\<open>strftime\<close> pattern, a string
  raises \<^verbatim>\<open>ValueError\<close>, \<^verbatim>\<open>None\<close> and a dict raise \<^verbatim>\<open>TypeError\<close>.
\<close>

definition float_limit :: real where
  "float_limit = 2 ^ 1024 - 2 ^ 970"

fun format_2f :: "pyval \<Rightarrow> error + unit" where
  "format_2f VNone = Inl TypeError"
| "format_2f (VStr s) = Inl ValueError"
| "format_2f (VDict kvs) = Inl TypeError"
| "format_2f (VBool b) = Inr ()"
| "format_2f (VNum r) = (if abs r < float_limit then Inr () else Inl OverflowError)"
| "format_2f VInf = Inr ()"
| "format_2f (VTime t) = Inr ()"

text \<open>\<^verbatim>\<open>d.get(k, default)\<close> and \<^verbatim>\<open>d[k]\<close>.\<close>

definition get_or :: "dict \<Rightarrow> string \<Rightarrow> pyval \<Rightarrow> pyval" where
  "get_or d k dflt = (case d k of None \<Rightarrow> dflt | Some v \<Rightarrow> v)"

definition item :: "dict \<Rightarrow> string \<Rightarrow> error + pyval" where
  "item d k = (case d k of None \<Rightarrow> Inl KeyError | Some v \<Rightarrow> Inr v)"

section \<open>The environment of a call\<close>

text \<open>
  What a call of \<^verbatim>\<open>end_session\<close> gets from outside the program, and the model does not
  compute.

  The file system: whether the primary export runs through (the writer opens the file,
  every sheet is written and closing the writer saves the file), what a primary export
  that does not run through leaves in the output directory (see \<^verbatim>\<open>_save_to_excel\<close>
  below), and whether each \<^verbatim>\<open>to_csv\<close> call of the fallback succeeds.

  The arithmetic of the interpreter, for the series of values of each metric (named by
  the metric's key): the result of \<^verbatim>\<open>sum(values)\<close>, a number or an exception (a float
  sum rounds and can overflow to \<^verbatim>\<open>inf\<close>, a sum of ints is exact, and adding an int too
  large for a float to a float raises \<^verbatim>\<open>OverflowError\<close>), and the result of dividing
  that sum by \<^verbatim>\<open>len(values)\<close>, a number or an exception (the quotient rounds, and an
  int too large for a float raises \<^verbatim>\<open>OverflowError\<close>). The series is part of the
  question because the model identifies a number with its value, while the answer
  depends on the types of the objects in the series as well. And the float that
  \<^verbatim>\<open>total_seconds()\<close> returns for a difference of two clock readings.
\<close>

type_synonym table = "dict list"

type_synonym book = "(string \<times> table) list"

record environment =
  excel_ok :: bool
  left_behind :: "book option"
  session_csv_ok :: bool
  turn_csv_ok :: bool
  total_seconds :: "real \<Rightarrow> real"
  sum_of :: "string \<Rightarrow> xnum list \<Rightarrow> error + xnum"
  quotient_of :: "string \<Rightarrow> xnum \<Rightarrow> nat \<Rightarrow> error + xnum"

text \<open>\<^verbatim>\<open>a - b\<close> for a datetime \<open>a\<close>, followed by \<^verbatim>\<open>.total_seconds()\<close>.\<close>

definition seconds_between :: "environment \<Rightarrow> pyval \<Rightarrow> pyval \<Rightarrow> error + pyval" where
  "seconds_between env a b = (case (a, b) of
      (VTime x, VTime y) \<Rightarrow> Inr (VNum (total_seconds env (instant x - instant y)))
    | _ \<Rightarrow> Inl TypeError)"

section \<open>Exceptions and sequencing\<close>

text \<open>
  A statement that mutates state returns how it ended together with the state it left:
  an exception raised half way keeps the assignments made before it.
\<close>

datatype outcome = Returned | Raised error

definition and_then :: "outcome \<times> 's \<Rightarrow> ('s \<Rightarrow> outcome \<times> 's) \<Rightarrow> outcome \<times> 's" where
  "and_then r f = (case r of (Returned, s) \<Rightarrow> f s | (Raised e, s) \<Rightarrow> (Raised e, s))"

definition eval_in :: "error + 'a \<Rightarrow> 's \<Rightarrow> ('a \<Rightarrow> outcome \<times> 's) \<Rightarrow> outcome \<times> 's" where
  "eval_in r s f = (case r of Inl e \<Rightarrow> (Raised e, s) | Inr v \<Rightarrow> f v)"

definition bind_e :: "error + 'a \<Rightarrow> ('a \<Rightarrow> error + 'b) \<Rightarrow> error + 'b" where
  "bind_e r f = (case r of Inl e \<Rightarrow> Inl e | Inr v \<Rightarrow> f v)"

text \<open>\<^verbatim>\<open>try: body except Exception as e: handler\<close>.\<close>

definition catch :: "outcome \<times> 's \<Rightarrow> (error \<Rightarrow> 's \<Rightarrow> outcome \<times> 's) \<Rightarrow> outcome \<times> 's" where
  "catch r h = (case r of (Returned, s) \<Rightarrow> (Returned, s) | (Raised e, s) \<Rightarrow> h e s)"

text \<open>\<^verbatim>\<open>for x in xs: body\<close>.\<close>

fun for_each :: "'a list \<Rightarrow> ('a \<Rightarrow> 's \<Rightarrow> outcome \<times> 's) \<Rightarrow> 's \<Rightarrow> outcome \<times> 's" where
  "for_each [] body s = (Returned, s)"
| "for_each (x # xs) body s = and_then (body x s) (for_each xs body)"

text \<open>\<^verbatim>\<open>[x for x in xs if p(x)]\<close> where the condition can raise.\<close>

fun filter_e :: "('a \<Rightarrow> error + bool) \<Rightarrow> 'a list \<Rightarrow> error + 'a list" where
  "filter_e p [] = Inr []"
| "filter_e p (x # xs) =
     bind_e (p x) (\<lambda>b. bind_e (filter_e p xs) (\<lambda>ys. Inr (if b then x # ys else ys)))"

section \<open>Sums, means and extremes of a list of values\<close>

text \<open>\<^verbatim>\<open>sum(values)\<close> for the series of a metric: \<^verbatim>\<open>TypeError\<close> when an element is not a
  number, and the interpreter's sum of the numbers otherwise.\<close>

fun numbers :: "pyval list \<Rightarrow> xnum list option" where
  "numbers [] = Some []"
| "numbers (v # vs) = (case num_of v of
      None \<Rightarrow> None
    | Some x \<Rightarrow> (case numbers vs of None \<Rightarrow> None | Some xs \<Rightarrow> Some (x # xs)))"

definition py_sum :: "environment \<Rightarrow> string \<Rightarrow> pyval list \<Rightarrow> error + xnum" where
  "py_sum env series vs = (case numbers vs of
      None \<Rightarrow> Inl TypeError
    | Some xs \<Rightarrow> sum_of env series xs)"

text \<open>\<^verbatim>\<open>acc / n\<close> for a count \<open>n\<close>: the interpreter's quotient, and \<^verbatim>\<open>ZeroDivisionError\<close>
  for a count of 0.\<close>

definition py_div :: "environment \<Rightarrow> string \<Rightarrow> xnum \<Rightarrow> nat \<Rightarrow> error + pyval" where
  "py_div env series acc n =
     (if n = 0 then Inl ZeroDivisionError
      else bind_e (quotient_of env series acc n) (\<lambda>q. Inr (val_of q)))"

text \<open>\<^verbatim>\<open>sum(values) / len(values)\<close>.\<close>

definition sum_div_len :: "environment \<Rightarrow> string \<Rightarrow> pyval list \<Rightarrow> error + pyval" where
  "sum_div_len env series vs =
     bind_e (py_sum env series vs) (\<lambda>acc. py_div env series acc (length vs))"

text \<open>\<^verbatim>\<open>min(values)\<close> and \<^verbatim>\<open>max(values)\<close>: the first element is the candidate, and a
  later element replaces it when it is strictly smaller (greater).\<close>

fun min_from :: "pyval \<Rightarrow> pyval list \<Rightarrow> error + pyval" where
  "min_from m [] = Inr m"
| "min_from m (v # vs) = bind_e (py_lt v m) (\<lambda>b. min_from (if b then v else m) vs)"

fun max_from :: "pyval \<Rightarrow> pyval list \<Rightarrow> error + pyval" where
  "max_from m [] = Inr m"
| "max_from m (v # vs) = bind_e (py_gt v m) (\<lambda>b. max_from (if b then v else m) vs)"

fun py_min :: "pyval list \<Rightarrow> error + pyval" where
  "py_min [] = Inl ValueError"
| "py_min (v # vs) = min_from v vs"

fun py_max :: "pyval list \<Rightarrow> error + pyval" where
  "py_max [] = Inl ValueError"
| "py_max (v # vs) = max_from v vs"

text \<open>\<^verbatim>\<open>len(values)\<close> as a value.\<close>

definition py_len :: "'a list \<Rightarrow> pyval" where
  "py_len xs = VNum (real (length xs))"

section \<open>The recorder: class MetricsLogger\<close>

datatype level = INFO | WARNING | ERROR

text \<open>
  What the exporter leaves in the output directory. Every file name of the source is a
  fixed template around the session id, so an artifact is identified by its kind and
  the session id's value. A workbook is its sheets in the order they were written; a
  sheet and a CSV file are the rows of the data frame they were written from, one row
  per dictionary of the list the frame was built from.
\<close>

datatype artifact =
    Workbook pyval "(string \<times> table) list"
  | SessionCsv pyval table
  | TurnCsv pyval table

text \<open>
  The four attributes of the object, and the two things it does to the world: the
  records it sends to the module's logger (level and the fixed part of the message) and
  the files it has left in the output directory, in the order of writing.
\<close>

record metrics_logger =
  output_dir :: string
  session_data :: dict
  turn_metrics :: "dict list"
  session_start_time :: "datetime option"
  logged :: "(level \<times> string) list"
  written :: "artifact list"

definition emit :: "level \<Rightarrow> string \<Rightarrow> metrics_logger \<Rightarrow> metrics_logger" where
  "emit lv msg s = s\<lparr>logged := logged s @ [(lv, msg)]\<rparr>"

definition on_data :: "(dict \<Rightarrow> outcome \<times> dict) \<Rightarrow> metrics_logger \<Rightarrow> outcome \<times> metrics_logger" where
  "on_data f s = (case f (session_data s) of (r, d) \<Rightarrow> (r, s\<lparr>session_data := d\<rparr>))"

text \<open>\<^verbatim>\<open>__init__\<close> (lines 11-18).\<close>

definition new_logger :: "string \<Rightarrow> metrics_logger" where
  "new_logger dir = \<lparr>output_dir = dir, session_data = Map.empty, turn_metrics = [],
     session_start_time = None, logged = [], written = []\<rparr>"

text \<open>\<^verbatim>\<open>start_session\<close> (lines 20-41).\<close>

definition initial_data :: "datetime \<Rightarrow> dict" where
  "initial_data now =
     [''session_id'' \<mapsto> VStr (ymd_hms now),
      ''start_time'' \<mapsto> VTime now,
      ''end_time'' \<mapsto> VNone,
      ''duration'' \<mapsto> VNone,
      ''total_turns'' \<mapsto> VNum 0,
      ''successful_turns'' \<mapsto> VNum 0,
      ''interrupted_turns'' \<mapsto> VNum 0,
      ''avg_latency'' \<mapsto> VNum 0,
      ''avg_eou_delay'' \<mapsto> VNum 0,
      ''avg_ttft'' \<mapsto> VNum 0,
      ''avg_ttfb'' \<mapsto> VNum 0,
      ''max_latency'' \<mapsto> VNum 0,
      ''min_latency'' \<mapsto> VInf,
      ''high_latency_turns'' \<mapsto> VNum 0,
      ''config'' \<mapsto> VDict []]"

definition start_session :: "datetime \<Rightarrow> metrics_logger \<Rightarrow> outcome \<times> metrics_logger" where
  "start_session now s =
     (Returned,
      emit INFO ''Started new session''
        (s\<lparr>session_start_time := Some now, session_data := initial_data now,
           turn_metrics := []\<rparr>))"

text \<open>\<^verbatim>\<open>add_turn_metrics\<close> (lines 43-76).\<close>

text \<open>\<^verbatim>\<open>self.session_data[k] += 1\<close>.\<close>

definition incr :: "string \<Rightarrow> dict \<Rightarrow> outcome \<times> dict" where
  "incr k d = eval_in (item d k) d (\<lambda>v. eval_in (add_one v) d (\<lambda>v'. (Returned, d(k \<mapsto> v'))))"

text \<open>Lines 67-68, 70-71 and 73-74.\<close>

definition track_max :: "pyval \<Rightarrow> dict \<Rightarrow> outcome \<times> dict" where
  "track_max total_latency d =
     eval_in (item d ''max_latency'') d (\<lambda>mx.
     eval_in (py_gt total_latency mx) d (\<lambda>b.
       (Returned, if b then d(''max_latency'' \<mapsto> total_latency) else d)))"

definition track_min :: "pyval \<Rightarrow> dict \<Rightarrow> outcome \<times> dict" where
  "track_min total_latency d =
     eval_in (item d ''min_latency'') d (\<lambda>mn.
     eval_in (py_lt total_latency mn) d (\<lambda>b.
       (Returned, if b then d(''min_latency'' \<mapsto> total_latency) else d)))"

definition track_high :: "pyval \<Rightarrow> dict \<Rightarrow> outcome \<times> dict" where
  "track_high total_latency d =
     eval_in (py_gt total_latency (VNum 2)) d (\<lambda>b.
       if b then incr ''high_latency_turns'' d else (Returned, d))"

text \<open>Lines 65-74.\<close>

definition update_latency :: "pyval \<Rightarrow> dict \<Rightarrow> outcome \<times> dict" where
  "update_latency total_latency d =
     eval_in (py_gt total_latency (VNum 0)) d (\<lambda>positive.
       if positive
       then and_then (track_max total_latency d) (\<lambda>d.
            and_then (track_min total_latency d) (track_high total_latency))
       else (Returned, d))"

text \<open>Lines 57-74.\<close>

definition update_totals :: "dict \<Rightarrow> dict \<Rightarrow> outcome \<times> dict" where
  "update_totals metrics d =
     and_then (incr ''total_turns'' d) (\<lambda>d.
     and_then
       (if truthy (get_or metrics ''interrupted'' (VBool False))
        then incr ''interrupted_turns'' d
        else incr ''successful_turns'' d)
       (update_latency (get_or metrics ''total_latency'' (VNum 0))))"

text \<open>Lines 50-51: the record as it is admitted.\<close>

definition stamped :: "datetime \<Rightarrow> pyval \<Rightarrow> dict \<Rightarrow> dict" where
  "stamped now sid metrics = metrics(''timestamp'' \<mapsto> VTime now, ''session_id'' \<mapsto> sid)"

definition add_turn_metrics ::
  "datetime \<Rightarrow> dict \<Rightarrow> metrics_logger \<Rightarrow> outcome \<times> metrics_logger" where
  "add_turn_metrics now metrics s =
     (case session_start_time s of
        None \<Rightarrow> (Returned, emit WARNING ''Session not started. Call start_session() first.'' s)
      | Some t0 \<Rightarrow>
          eval_in (item (session_data s) ''session_id'') s (\<lambda>sid.
            let m = stamped now sid metrics
            in and_then (on_data (update_totals m) (s\<lparr>turn_metrics := turn_metrics s @ [m]\<rparr>))
                 (\<lambda>s. (Returned, emit INFO ''Added turn metrics'' s))))"

text \<open>\<^verbatim>\<open>_calculate_averages\<close> (lines 104-118).\<close>

definition valid_turns :: "dict list \<Rightarrow> dict list" where
  "valid_turns ts = filter (\<lambda>t. \<not> truthy (get_or t ''interrupted'' (VBool False))) ts"

text \<open>\<^verbatim>\<open>[t.get(metric, 0) for t in valid_turns if t.get(metric, 0) > 0]\<close>.\<close>

definition positive_values :: "string \<Rightarrow> dict list \<Rightarrow> error + pyval list" where
  "positive_values metric ts =
     bind_e (filter_e (\<lambda>t. py_gt (get_or t metric (VNum 0)) (VNum 0)) ts)
       (\<lambda>qs. Inr (map (\<lambda>t. get_or t metric (VNum 0)) qs))"

definition metrics_to_avg :: "string list" where
  "metrics_to_avg = [''total_latency'', ''eou_delay'', ''ttft'', ''ttfb'']"

definition average_metric ::
  "environment \<Rightarrow> dict list \<Rightarrow> string \<Rightarrow> dict \<Rightarrow> outcome \<times> dict" where
  "average_metric env valid metric d =
     eval_in (positive_values metric valid) d (\<lambda>values.
       if values \<noteq> []
       then eval_in (sum_div_len env metric values) d
              (\<lambda>avg. (Returned, d(''avg_'' @ metric \<mapsto> avg)))
       else (Returned, d))"

definition calculate_averages :: "environment \<Rightarrow> metrics_logger \<Rightarrow> outcome \<times> metrics_logger" where
  "calculate_averages env s =
     (let valid = valid_turns (turn_metrics s)
      in if valid = [] then (Returned, s)
         else on_data (for_each metrics_to_avg (average_metric env valid)) s)"

text \<open>\<^verbatim>\<open>_create_latency_analysis_sheet\<close> (lines 149-187): the rows handed to
  \<^verbatim>\<open>to_excel\<close>, or \<open>None\<close> when the method returns before building a frame.\<close>

definition stat_row :: "string \<Rightarrow> pyval \<Rightarrow> pyval \<Rightarrow> pyval \<Rightarrow> pyval \<Rightarrow> dict" where
  "stat_row name avg mn mx cnt =
     [''Metric'' \<mapsto> VStr name, ''Average'' \<mapsto> avg, ''Min'' \<mapsto> mn, ''Max'' \<mapsto> mx,
      ''Count'' \<mapsto> cnt]"

definition count_row :: "string \<Rightarrow> pyval \<Rightarrow> dict" where
  "count_row name cnt = [''Metric'' \<mapsto> VStr name, ''Count'' \<mapsto> cnt]"

text \<open>The row of lines 169-170, whose statistics are taken unguarded.\<close>

definition latency_row :: "environment \<Rightarrow> pyval list \<Rightarrow> error + dict" where
  "latency_row env latencies =
     bind_e (sum_div_len env ''total_latency'' latencies) (\<lambda>avg.
     bind_e (py_min latencies) (\<lambda>mn.
     bind_e (py_max latencies) (\<lambda>mx.
       Inr (stat_row ''Total Latency'' avg mn mx (py_len latencies)))))"

text \<open>A row of lines 171-176, each statistic \<^verbatim>\<open>... if values else 0\<close>, for the series of
  the metric \<open>metric\<close>.\<close>

definition guarded_row :: "environment \<Rightarrow> string \<Rightarrow> string \<Rightarrow> pyval list \<Rightarrow> error + dict" where
  "guarded_row env metric name vs =
     bind_e (if vs \<noteq> [] then sum_div_len env metric vs else Inr (VNum 0)) (\<lambda>avg.
     bind_e (if vs \<noteq> [] then py_min vs else Inr (VNum 0)) (\<lambda>mn.
     bind_e (if vs \<noteq> [] then py_max vs else Inr (VNum 0)) (\<lambda>mx.
       Inr (stat_row name avg mn mx (py_len vs)))))"

definition count_where :: "(pyval \<Rightarrow> error + bool) \<Rightarrow> pyval list \<Rightarrow> error + pyval" where
  "count_where p vs = bind_e (filter_e p vs) (\<lambda>qs. Inr (py_len qs))"

definition threshold_rows :: "pyval list \<Rightarrow> error + table" where
  "threshold_rows latencies =
     bind_e (count_where (\<lambda>l. py_gt l (VNum 2)) latencies) (\<lambda>c2.
     bind_e (count_where (\<lambda>l. py_gt l (VNum 1)) latencies) (\<lambda>c1.
     bind_e (count_where (\<lambda>l. py_lt l (VNum (1/2))) latencies) (\<lambda>c05.
       Inr [count_row ''Turns > 2s latency'' c2,
            count_row ''Turns > 1s latency'' c1,
            count_row ''Turns < 0.5s latency'' c05])))"

definition create_latency_analysis_sheet ::
  "environment \<Rightarrow> dict list \<Rightarrow> error + table option" where
  "create_latency_analysis_sheet env ts =
     (if ts = [] then Inr None
      else let valid = valid_turns ts
      in if valid = [] then Inr None
      else
        bind_e (positive_values ''total_latency'' valid) (\<lambda>latencies.
        bind_e (positive_values ''eou_delay'' valid) (\<lambda>eou_delays.
        bind_e (positive_values ''ttft'' valid) (\<lambda>ttfts.
        bind_e (positive_values ''ttfb'' valid) (\<lambda>ttfbs.
        bind_e
          (if latencies \<noteq> []
           then bind_e (latency_row env latencies) (\<lambda>r1.
                bind_e (guarded_row env ''eou_delay'' ''EOU Delay'' eou_delays) (\<lambda>r2.
                bind_e (guarded_row env ''ttft'' ''TTFT'' ttfts) (\<lambda>r3.
                bind_e (guarded_row env ''ttfb'' ''TTFB'' ttfbs) (\<lambda>r4.
                  Inr [r1, r2, r3, r4]))))
           else Inr [])
          (\<lambda>stats.
        bind_e (threshold_rows latencies) (\<lambda>thresholds.
          Inr (Some (stats @ thresholds)))))))))"

text \<open>\<^verbatim>\<open>_save_as_csv_fallback\<close> (lines 189-206).\<close>

definition write_file :: "bool \<Rightarrow> artifact \<Rightarrow> metrics_logger \<Rightarrow> outcome \<times> metrics_logger" where
  "write_file ok a s = (if ok then (Returned, s\<lparr>written := written s @ [a]\<rparr>) else (Raised OSError, s))"

definition save_as_csv_fallback ::
  "environment \<Rightarrow> pyval \<Rightarrow> metrics_logger \<Rightarrow> outcome \<times> metrics_logger" where
  "save_as_csv_fallback env session_id s =
     catch
       (and_then (write_file (session_csv_ok env) (SessionCsv session_id [session_data s]) s) (\<lambda>s.
        and_then
          (if turn_metrics s \<noteq> []
           then write_file (turn_csv_ok env) (TurnCsv session_id (turn_metrics s)) s
           else (Returned, s))
          (\<lambda>s. (Returned, emit INFO ''Metrics saved as CSV files'' s))))
       (\<lambda>e s. (Returned, emit ERROR ''Failed to save CSV fallback'' s))"

text \<open>
  \<^verbatim>\<open>_save_to_excel\<close> (lines 120-147). The writer collects the sheets handed to it, in
  order, and the file is written when the writer is closed: a primary export that runs
  through writes the workbook of these sheets.

  When a step fails, or \<^verbatim>\<open>_create_latency_analysis_sheet\<close> raises, the exception
  reaches the handler of line 144. On its way \<^verbatim>\<open>ExcelWriter.__exit__\<close> closes the
  writer, which can still save a file of what the writer holds by then. Whether there is
  such a file, and what it holds, depends on where inside \<^verbatim>\<open>pandas\<close> and \<^verbatim>\<open>openpyxl\<close>
  the step failed, so the model takes it from the environment.
\<close>

definition workbook_sheets :: "metrics_logger \<Rightarrow> table option \<Rightarrow> book" where
  "workbook_sheets s analysis =
     [(''Session_Summary'', [session_data s])]
     @ (if turn_metrics s \<noteq> [] then [(''Turn_Details'', turn_metrics s)] else [])
     @ (case analysis of None \<Rightarrow> [] | Some rows \<Rightarrow> [(''Latency_Analysis'', rows)])"

text \<open>Leaving the \<^verbatim>\<open>with\<close> block by an exception.\<close>

definition abandon :: "environment \<Rightarrow> pyval \<Rightarrow> metrics_logger \<Rightarrow> metrics_logger" where
  "abandon env session_id s =
     (case left_behind env of
        None \<Rightarrow> s
      | Some b \<Rightarrow> s\<lparr>written := written s @ [Workbook session_id b]\<rparr>)"

definition save_to_excel :: "environment \<Rightarrow> metrics_logger \<Rightarrow> outcome \<times> metrics_logger" where
  "save_to_excel env s =
     eval_in (item (session_data s) ''session_id'') s (\<lambda>session_id.
       catch
         (case create_latency_analysis_sheet env (turn_metrics s) of
            Inl e \<Rightarrow> (Raised e, abandon env session_id s)
          | Inr analysis \<Rightarrow>
              if excel_ok env
              then (Returned,
                    emit INFO ''Metrics saved''
                      (s\<lparr>written := written s @
                           [Workbook session_id (workbook_sheets s analysis)]\<rparr>))
              else (Raised OSError, abandon env session_id s))
         (\<lambda>e s. save_as_csv_fallback env session_id
                  (emit ERROR ''Failed to save metrics to Excel'' s)))"

text \<open>\<^verbatim>\<open>end_session\<close> (lines 78-102).\<close>

text \<open>Lines 84-85.\<close>

definition close_times :: "environment \<Rightarrow> datetime \<Rightarrow> dict \<Rightarrow> outcome \<times> dict" where
  "close_times env now d =
     (let d = d(''end_time'' \<mapsto> VTime now)
      in eval_in (item d ''end_time'') d (\<lambda>e.
         eval_in (item d ''start_time'') d (\<lambda>b.
         eval_in (seconds_between env e b) d (\<lambda>dur.
           (Returned, d(''duration'' \<mapsto> dur))))))"

text \<open>Lines 87-88. An empty overlay is skipped by the test of line 87, and merging it
  would change nothing.\<close>

definition merge_summary :: "dict option \<Rightarrow> dict \<Rightarrow> dict" where
  "merge_summary session_summary d =
     (case session_summary of None \<Rightarrow> d | Some ov \<Rightarrow> d ++ ov)"

text \<open>Lines 95-96.\<close>

definition fix_min_latency :: "dict \<Rightarrow> outcome \<times> dict" where
  "fix_min_latency d =
     eval_in (item d ''min_latency'') d (\<lambda>mn.
       (Returned, if is_inf mn then d(''min_latency'' \<mapsto> VNum 0) else d))"

text \<open>Lines 101-102.\<close>

definition log_session_end :: "metrics_logger \<Rightarrow> outcome \<times> metrics_logger" where
  "log_session_end s =
     eval_in (item (session_data s) ''session_id'') s (\<lambda>sid.
       let s = emit INFO ''Session ended'' s
       in eval_in (item (session_data s) ''duration'') s (\<lambda>dur.
          eval_in (format_2f dur) s (\<lambda>u.
          eval_in (item (session_data s) ''total_turns'') s (\<lambda>n.
            (Returned, emit INFO ''Duration, Turns'' s)))))"

definition end_session ::
  "datetime \<Rightarrow> dict option \<Rightarrow> environment \<Rightarrow> metrics_logger \<Rightarrow> outcome \<times> metrics_logger" where
  "end_session now session_summary env s =
     (case session_start_time s of
        None \<Rightarrow> (Returned, emit WARNING ''No active session to end.'' s)
      | Some t0 \<Rightarrow>
          and_then (on_data (close_times env now) s) (\<lambda>s.
          and_then (on_data (\<lambda>d. (Returned, merge_summary session_summary d)) s) (\<lambda>s.
          and_then (if turn_metrics s \<noteq> [] then calculate_averages env s else (Returned, s)) (\<lambda>s.
          and_then (on_data fix_min_latency s) (\<lambda>s.
          and_then (save_to_excel env s) log_session_end)))))"

section \<open>Sessions\<close>

text \<open>
  A caller drives the recorder: \<^verbatim>\<open>start_session()\<close>, then one \<^verbatim>\<open>add_turn_metrics\<close>
  call per turn, each with the clock reading it sees and the caller's dictionary. The
  recorder keeps the state a call leaves whether the call returned or raised.
\<close>

fun add_turns :: "(datetime \<times> dict) list \<Rightarrow> metrics_logger \<Rightarrow> metrics_logger" where
  "add_turns [] s = s"
| "add_turns (c # cs) s = add_turns cs (snd (add_turn_metrics (fst c) (snd c) s))"

definition started :: "datetime \<Rightarrow> (datetime \<times> dict) list \<Rightarrow> metrics_logger \<Rightarrow> metrics_logger" where
  "started t0 calls s0 = add_turns calls (snd (start_session t0 s0))"

section \<open>The quantities the properties speak of\<close>

text \<open>These are read off the submitted records alone, without the recorder.\<close>

definition flagged_interrupted :: "dict \<Rightarrow> bool" where
  "flagged_interrupted t = (case t ''interrupted'' of None \<Rightarrow> False | Some v \<Rightarrow> truthy v)"

text \<open>The value of a metric in a record when it is present, a number and strictly
  positive.\<close>

definition measured :: "string \<Rightarrow> dict \<Rightarrow> xnum option" where
  "measured metric t = (case t metric of
      None \<Rightarrow> None
    | Some v \<Rightarrow> (case num_of v of
        None \<Rightarrow> None
      | Some x \<Rightarrow> if Fin 0 < x then Some x else None))"

definition positives :: "string \<Rightarrow> dict list \<Rightarrow> xnum list" where
  "positives metric ts = List.map_filter (measured metric) ts"

definition qualifying :: "string \<Rightarrow> dict list \<Rightarrow> xnum list" where
  "qualifying metric ts = positives metric (filter (\<lambda>t. \<not> flagged_interrupted t) ts)"

text \<open>A metric is well typed in a record when it is absent or a number.\<close>

definition numeric :: "string \<Rightarrow> dict \<Rightarrow> bool" where
  "numeric metric t = (case t metric of None \<Rightarrow> True | Some v \<Rightarrow> num_of v \<noteq> None)"

fun fin_of :: "xnum \<Rightarrow> real" where
  "fin_of (Fin r) = r"
| "fin_of PInf = 0"

text \<open>The arithmetic mean, in the reals; a series that holds \<open>+inf\<close> has mean \<open>+inf\<close>.\<close>

definition mean :: "xnum list \<Rightarrow> xnum" where
  "mean xs = (if PInf \<in> set xs then PInf
              else Fin (sum_list (map fin_of xs) / real (length xs)))"

text \<open>The mean of the series of a metric as the interpreter computes it, by dividing its
  sum of the series by the length: a number, or the exception of the sum or of the
  division.\<close>

definition float_mean :: "environment \<Rightarrow> string \<Rightarrow> xnum list \<Rightarrow> error + xnum" where
  "float_mean env metric xs =
     bind_e (sum_of env metric xs) (\<lambda>acc. quotient_of env metric acc (length xs))"

text \<open>
  Arithmetic without rounding: the sum and the quotient in the reals. The interpreter
  answers with them on a series whose sum and mean are doubles and are reached without
  rounding on the way (0.5, 1.5 and 2.5 add up to 4.5, and a third of that is 1.5).
\<close>

fun xadd :: "xnum \<Rightarrow> xnum \<Rightarrow> xnum" where
  "xadd (Fin a) (Fin b) = Fin (a + b)"
| "xadd PInf y = PInf"
| "xadd x PInf = PInf"

definition exact_sum :: "string \<Rightarrow> xnum list \<Rightarrow> error + xnum" where
  "exact_sum metric xs = Inr (foldl xadd (Fin 0) xs)"

definition exact_quotient :: "string \<Rightarrow> xnum \<Rightarrow> nat \<Rightarrow> error + xnum" where
  "exact_quotient metric acc n = Inr (case acc of Fin a \<Rightarrow> Fin (a / real n) | PInf \<Rightarrow> PInf)"

text \<open>The interpreter computes the mean of a series without rounding.\<close>

definition exact_on :: "environment \<Rightarrow> string \<Rightarrow> xnum list \<Rightarrow> bool" where
  "exact_on env metric xs \<longleftrightarrow>
     sum_of env metric xs = exact_sum metric xs \<and>
     quotient_of env metric (foldl xadd (Fin 0) xs) (length xs) =
       exact_quotient metric (foldl xadd (Fin 0) xs) (length xs)"

definition num_at :: "dict \<Rightarrow> string \<Rightarrow> xnum option" where
  "num_at d k = (case d k of None \<Rightarrow> None | Some v \<Rightarrow> num_of v)"

text \<open>The record a call leaves in the turn sequence of a session started at \<open>t0\<close>.\<close>

definition stamp_call :: "datetime \<Rightarrow> datetime \<times> dict \<Rightarrow> dict" where
  "stamp_call t0 c = stamped (fst c) (VStr (ymd_hms t0)) (snd c)"

text \<open>The same environment with a file system on which the primary export runs through.\<close>

definition working :: "environment \<Rightarrow> environment" where
  "working env = env\<lparr>excel_ok := True\<rparr>"

text \<open>The file a failed primary export leaves behind, if any, under the session id.\<close>

definition leftover :: "environment \<Rightarrow> pyval \<Rightarrow> artifact list" where
  "leftover env sid = (case left_behind env of None \<Rightarrow> [] | Some b \<Rightarrow> [Workbook sid b])"

section \<open>Concrete sessions\<close>

text \<open>Inputs on which the properties below are evaluated.\<close>

definition clock0 :: datetime where
  "clock0 = DateTime 0 ''20240101_000000''"

definition clock1 :: datetime where
  "clock1 = DateTime 60 ''20240101_000100''"

definition plain_turn :: "real \<Rightarrow> datetime \<times> dict" where
  "plain_turn l = (clock0, [''total_latency'' \<mapsto> VNum l, ''interrupted'' \<mapsto> VBool False])"

definition three_turns :: "(datetime \<times> dict) list" where
  "three_turns = [plain_turn (1/2), plain_turn (3/2), plain_turn (5/2)]"

text \<open>An environment in which every write succeeds.\<close>

definition all_ok :: environment where
  "all_ok = \<lparr>excel_ok = True, left_behind = None, session_csv_ok = True, turn_csv_ok = True,
     total_seconds = (\<lambda>x. x), sum_of = exact_sum, quotient_of = exact_quotient\<rparr>"

text \<open>One in which the primary export fails and leaves nothing, and one in which it
  fails when the Latency Analysis sheet of the session of three turns is written, and
  the writer still saves the two sheets written before.\<close>

definition excel_fails :: environment where
  "excel_fails = all_ok\<lparr>excel_ok := False\<rparr>"

definition excel_fails_late :: environment where
  "excel_fails_late = all_ok\<lparr>excel_ok := False,
     left_behind := Some
       [(''Session_Summary'',
         [session_data (snd (end_session clock1 None all_ok
            (started clock0 three_turns (new_logger ''metrics''))))]),
        (''Turn_Details'', map (stamp_call clock0) three_turns)]\<rparr>"

definition ttft_turn :: "datetime \<times> dict" where
  "ttft_turn = (clock0, [''ttft'' \<mapsto> VNum 1, ''interrupted'' \<mapsto> VBool False])"

definition no_turns :: "(datetime \<times> dict) list" where
  "no_turns = []"

definition eou_only :: dict where
  "eou_only = [''eou_delay'' \<mapsto> VNum (1/4), ''interrupted'' \<mapsto> VBool False]"

definition cut_off :: dict where
  "cut_off = [''total_latency'' \<mapsto> VNum 5, ''interrupted'' \<mapsto> VBool True]"

section \<open>Invariant of a running session\<close>

text \<open>The entries of the session state that \<^verbatim>\<open>add_turn_metrics\<close> writes.\<close>

definition tracked_keys :: "string list" where
  "tracked_keys = [''total_turns'', ''interrupted_turns'', ''successful_turns'',
     ''max_latency'', ''min_latency'', ''high_latency_turns'']"

text \<open>What those entries hold, in terms of the admitted records \<open>ts\<close>.\<close>

definition counts :: "dict list \<Rightarrow> dict \<Rightarrow> bool" where
  "counts ts d \<longleftrightarrow>
     d ''total_turns'' = Some (VNum (real (length ts))) \<and>
     d ''interrupted_turns'' = Some (VNum (real (length (filter flagged_interrupted ts)))) \<and>
     d ''successful_turns'' =
       Some (VNum (real (length (filter (\<lambda>t. \<not> flagged_interrupted t) ts)))) \<and>
     num_at d ''max_latency'' = Some (Max (set (Fin 0 # positives ''total_latency'' ts))) \<and>
     num_at d ''min_latency'' = Some (Min (set (PInf # positives ''total_latency'' ts))) \<and>
     d ''high_latency_turns'' =
       Some (VNum (real (length (filter (\<lambda>x. Fin 2 < x) (positives ''total_latency'' ts)))))"

text \<open>A started session: the clock reading of \<^verbatim>\<open>start_session\<close>, the tracked entries,
  and every other entry as \<^verbatim>\<open>start_session\<close> set it.\<close>

definition running :: "datetime \<Rightarrow> metrics_logger \<Rightarrow> bool" where
  "running t0 s \<longleftrightarrow>
     session_start_time s = Some t0 \<and>
     counts (turn_metrics s) (session_data s) \<and>
     (\<forall>k. k \<notin> set tracked_keys \<longrightarrow> session_data s k = initial_data t0 k)"

text \<open>The session state of a session started at \<open>t0\<close> after lines 84-88 of
  \<^verbatim>\<open>end_session\<close>: closing time, duration, and the overlay merged.\<close>

definition closed_data ::
  "environment \<Rightarrow> datetime \<Rightarrow> datetime \<Rightarrow> dict option \<Rightarrow> dict \<Rightarrow> dict" where
  "closed_data env t0 now ov d =
     merge_summary ov (d(''end_time'' \<mapsto> VTime now,
       ''duration'' \<mapsto> VNum (total_seconds env (instant now - instant t0))))"

text \<open>The overlay's entry for a key, when an overlay is given and has the key.\<close>

definition overlay_at :: "dict option \<Rightarrow> string \<Rightarrow> pyval option" where
  "overlay_at ov k = (case ov of None \<Rightarrow> None | Some m \<Rightarrow> m k)"

text \<open>An entry that is present and a finite number not below zero.\<close>

definition finite_nonneg :: "pyval option \<Rightarrow> bool" where
  "finite_nonneg e = (case e of
      None \<Rightarrow> False
    | Some v \<Rightarrow> (case num_of v of Some (Fin r) \<Rightarrow> 0 \<le> r | Some PInf \<Rightarrow> False | None \<Rightarrow> False))"

text \<open>A row of the Latency Analysis table that reports the series of a metric under a
  name: its count, its mean as the interpreter computes it, and its minimum and maximum
  (all 0 for an empty series).\<close>

definition summarises :: "environment \<Rightarrow> string \<Rightarrow> string \<Rightarrow> xnum list \<Rightarrow> dict \<Rightarrow> bool" where
  "summarises env metric name xs row \<longleftrightarrow>
     row ''Metric'' = Some (VStr name) \<and>
     row ''Count'' = Some (VNum (real (length xs))) \<and>
     (if xs = []
      then row ''Average'' = Some (VNum 0) \<and> row ''Min'' = Some (VNum 0) \<and>
           row ''Max'' = Some (VNum 0)
      else (case float_mean env metric xs of
              Inr a \<Rightarrow> row ''Average'' = Some (val_of a)
            | Inl e \<Rightarrow> False) \<and>
           num_at row ''Min'' = Some (Min (set xs)) \<and>
           num_at row ''Max'' = Some (Max (set xs)))"

text \<open>A threshold row: a name and a count, nothing else.\<close>

definition tallies :: "string \<Rightarrow> nat \<Rightarrow> dict \<Rightarrow> bool" where
  "tallies name n row \<longleftrightarrow>
     row ''Metric'' = Some (VStr name) \<and> row ''Count'' = Some (VNum (real n)) \<and>
     row ''Average'' = None \<and> row ''Min'' = None \<and> row ''Max'' = None"

text \<open>The rows the Latency Analysis table has for the admitted records \<open>ts\<close>, each as the
  property its row satisfies.\<close>

definition analysis_rows :: "environment \<Rightarrow> dict list \<Rightarrow> (dict \<Rightarrow> bool) list" where
  "analysis_rows env ts =
     (if qualifying ''total_latency'' ts = [] then []
      else [summarises env ''total_latency'' ''Total Latency'' (qualifying ''total_latency'' ts),
            summarises env ''eou_delay'' ''EOU Delay'' (qualifying ''eou_delay'' ts),
            summarises env ''ttft'' ''TTFT'' (qualifying ''ttft'' ts),
            summarises env ''ttfb'' ''TTFB'' (qualifying ''ttfb'' ts)])
     @ [tallies ''Turns > 2s latency''
          (length (filter (\<lambda>x. Fin 2 < x) (qualifying ''total_latency'' ts))),
        tallies ''Turns > 1s latency''
          (length (filter (\<lambda>x. Fin 1 < x) (qualifying ''total_latency'' ts))),
        tallies ''Turns < 0.5s latency''
          (length (filter (\<lambda>x. x < Fin (1/2)) (qualifying ''total_latency'' ts)))]"

text \<open>The rows of a named sheet of a workbook.\<close>

definition sheet :: "string \<Rightarrow> artifact \<Rightarrow> table option" where
  "sheet name a = (case a of Workbook sid sheets \<Rightarrow> map_of sheets name
     | SessionCsv sid rows \<Rightarrow> None | TurnCsv sid rows \<Rightarrow> None)"

text \<open>The session id the exporter names its files after: the overlay's, when the overlay
  has one, and the one of \<^verbatim>\<open>start_session\<close> otherwise.\<close>

definition export_id :: "datetime \<Rightarrow> dict option \<Rightarrow> pyval" where
  "export_id t0 ov = (case overlay_at ov ''session_id'' of
      Some v \<Rightarrow> v | None \<Rightarrow> VStr (ymd_hms t0))"

section \<open>Basic facts\<close>

text \<open>The bound of \<^verbatim>\<open>:.2f\<close> as a numeral, for evaluation.\<close>

lemma float_limit_numeral [code]:
  "float_limit =
     179769313486231580793728971405303415079934132710037826936173778980444968292764750946649017977587207096330286416692887910946555547851940402630657488671505820681908902000708383676273854845817711531764475730270069855571366959622842914819860834936475292719074168444365510704342711559699508093042880177904174497792"
  by (simp add: float_limit_def)

lemma xnum_less_Fin [simp]: "(Fin a < Fin b) = (a < b)"
  unfolding less_xnum_def by auto

lemma xnum_less_PInf [simp]: "Fin a < PInf"
  unfolding less_xnum_def by simp

lemma xnum_PInf_less [simp]: "\<not> PInf < x"
  unfolding less_xnum_def by (cases x) simp_all

lemma xnum_le_PInf [simp]: "x \<le> PInf"
  by (cases x) simp_all

lemma and_then_simps [simp]:
  "and_then (Returned, s) f = f s" "and_then (Raised e, s) f = (Raised e, s)"
  by (simp_all add: and_then_def)

lemma eval_in_simps [simp]:
  "eval_in (Inl e) s f = (Raised e, s)" "eval_in (Inr v) s f = f v"
  by (simp_all add: eval_in_def)

lemma bind_e_simps [simp]:
  "bind_e (Inl e) g = Inl e" "bind_e (Inr v) g = g v"
  by (simp_all add: bind_e_def)

lemma catch_simps [simp]:
  "catch (Returned, s) h = (Returned, s)" "catch (Raised e, s) h = h e s"
  by (simp_all add: catch_def)

lemma item_Some [simp]: "d k = Some v \<Longrightarrow> item d k = Inr v"
  by (simp add: item_def)

lemma item_None [simp]: "d k = None \<Longrightarrow> item d k = Inl KeyError"
  by (simp add: item_def)

lemma py_gt_num [simp]: "num_of a = Some x \<Longrightarrow> num_of b = Some y \<Longrightarrow> py_gt a b = Inr (y < x)"
  by (simp add: py_gt_def)

lemma py_lt_num [simp]: "num_of a = Some x \<Longrightarrow> num_of b = Some y \<Longrightarrow> py_lt a b = Inr (x < y)"
  by (simp add: py_lt_def)

lemma py_gt_nonnum [simp]: "num_of a = None \<Longrightarrow> py_gt a b = Inl TypeError"
  by (simp add: py_gt_def)

lemma add_turns_snoc:
  "add_turns (cs @ [c]) s = snd (add_turn_metrics (fst c) (snd c) (add_turns cs s))"
  by (induction cs arbitrary: s) simp_all

lemma incr_num:
  "d k = Some (VNum n) \<Longrightarrow> incr k d = (Returned, d(k \<mapsto> VNum (n + 1)))"
  by (simp add: incr_def add_one_def)

lemma num_atD: "num_at d k = Some x \<Longrightarrow> \<exists>v. d k = Some v \<and> num_of v = Some x"
  by (cases "d k") (simp_all add: num_at_def)

lemma track_max_num:
  assumes "num_at d ''max_latency'' = Some M" "num_of v = Some x"
  shows "track_max v d = (Returned, if M < x then d(''max_latency'' \<mapsto> v) else d)"
proof -
  from num_atD[OF assms(1)] obtain w where "d ''max_latency'' = Some w" "num_of w = Some M"
    by blast
  with assms(2) show ?thesis by (simp add: track_max_def)
qed

lemma track_min_num:
  assumes "num_at d ''min_latency'' = Some m" "num_of v = Some x"
  shows "track_min v d = (Returned, if x < m then d(''min_latency'' \<mapsto> v) else d)"
proof -
  from num_atD[OF assms(1)] obtain w where "d ''min_latency'' = Some w" "num_of w = Some m"
    by blast
  with assms(2) show ?thesis by (simp add: track_min_def)
qed

lemma track_high_num:
  assumes "d ''high_latency_turns'' = Some (VNum h)" "num_of v = Some x"
  shows "track_high v d =
    (Returned, if Fin 2 < x then d(''high_latency_turns'' \<mapsto> VNum (h + 1)) else d)"
  using assms by (simp add: track_high_def incr_num)

lemma update_latency_num:
  assumes "num_at d ''max_latency'' = Some M" "num_at d ''min_latency'' = Some m"
    "d ''high_latency_turns'' = Some (VNum h)" "num_of v = Some x"
  shows "update_latency v d =
    (Returned,
     if Fin 0 < x
     then let d1 = (if M < x then d(''max_latency'' \<mapsto> v) else d);
              d2 = (if x < m then d1(''min_latency'' \<mapsto> v) else d1)
          in (if Fin 2 < x then d2(''high_latency_turns'' \<mapsto> VNum (h + 1)) else d2)
     else d)"
proof (cases "Fin 0 < x")
  case False
  with assms(4) show ?thesis by (simp add: update_latency_def)
next
  case True
  let ?d1 = "if M < x then d(''max_latency'' \<mapsto> v) else d"
  let ?d2 = "if x < m then ?d1(''min_latency'' \<mapsto> v) else ?d1"
  have m1: "num_at ?d1 ''min_latency'' = Some m"
    using assms(2) by (simp add: num_at_def)
  have h2: "?d2 ''high_latency_turns'' = Some (VNum h)"
    using assms(3) by simp
  have "update_latency v d = and_then (track_max v d) (\<lambda>d. and_then (track_min v d) (track_high v))"
    using True assms(4) by (simp add: update_latency_def)
  also have "\<dots> = and_then (track_min v ?d1) (track_high v)"
    by (simp add: track_max_num[OF assms(1) assms(4)])
  also have "\<dots> = track_high v ?d2"
    by (simp add: track_min_num[OF m1 assms(4)])
  also have "\<dots> = (Returned, if Fin 2 < x then ?d2(''high_latency_turns'' \<mapsto> VNum (h + 1)) else ?d2)"
    using h2 assms(4) by (simp add: track_high_num)
  finally show ?thesis using True by (simp add: Let_def)
qed

lemma update_latency_nonnum:
  "num_of v = None \<Longrightarrow> update_latency v d = (Raised TypeError, d)"
  by (simp add: update_latency_def)

lemma positives_snoc:
  "positives metric (ts @ [t]) =
     positives metric ts @ (case measured metric t of None \<Rightarrow> [] | Some x \<Rightarrow> [x])"
  by (simp add: positives_def List.map_filter_def split: option.splits)

lemma truthy_get_or: "truthy (get_or t ''interrupted'' (VBool False)) = flagged_interrupted t"
  by (simp add: get_or_def flagged_interrupted_def split: option.splits)

lemma measured_get_or:
  "measured metric t =
     (case num_of (get_or t metric (VNum 0)) of None \<Rightarrow> None
      | Some x \<Rightarrow> if Fin 0 < x then Some x else None)"
  by (cases "t metric") (simp_all add: measured_def get_or_def)

lemma Max_snoc: "Max (set (a # xs @ [x])) = max (Max (set (a # xs))) (x::xnum)"
proof -
  have "set (a # xs @ [x]) = insert x (set (a # xs))" by auto
  then show ?thesis by (simp add: max.commute del: set_simps)
qed

lemma Min_snoc: "Min (set (a # xs @ [x])) = min (Min (set (a # xs))) (x::xnum)"
proof -
  have "set (a # xs @ [x]) = insert x (set (a # xs))" by auto
  then show ?thesis by (simp add: min.commute del: set_simps)
qed

lemma update_totals_step:
  assumes "counts ts d"
  shows "update_totals t d =
     update_latency (get_or t ''total_latency'' (VNum 0))
       (d(''total_turns'' \<mapsto> VNum (real (length ts) + 1),
          (if flagged_interrupted t then ''interrupted_turns'' else ''successful_turns'') \<mapsto>
            VNum (real (length (filter (\<lambda>u. flagged_interrupted u = flagged_interrupted t) ts)) + 1)))"
proof -
  let ?key = "if flagged_interrupted t then ''interrupted_turns'' else ''successful_turns''"
  let ?c = "real (length (filter (\<lambda>u. flagged_interrupted u = flagged_interrupted t) ts))"
  let ?d1 = "d(''total_turns'' \<mapsto> VNum (real (length ts) + 1))"
  have c: "d ?key = Some (VNum ?c)"
    using assms by (cases "flagged_interrupted t") (simp_all add: counts_def)
  have tot: "d ''total_turns'' = Some (VNum (real (length ts)))"
    using assms by (simp add: counts_def)
  have c1: "?d1 ?key = Some (VNum ?c)" using c by simp
  have i1: "incr ''total_turns'' d = (Returned, ?d1)"
    using tot by (simp add: incr_num)
  have i2: "incr ?key ?d1 = (Returned, ?d1(?key \<mapsto> VNum (?c + 1)))"
    using c1 by (simp add: incr_num)
  show ?thesis
    using i2 by (cases "flagged_interrupted t") (simp_all add: update_totals_def truthy_get_or i1)
qed

lemma update_totals_frame:
  assumes "counts ts d" "k \<notin> set tracked_keys"
  shows "snd (update_totals t d) k = d k"
proof -
  let ?v = "get_or t ''total_latency'' (VNum 0)"
  let ?d2 = "d(''total_turns'' \<mapsto> VNum (real (length ts) + 1),
          (if flagged_interrupted t then ''interrupted_turns'' else ''successful_turns'') \<mapsto>
            VNum (real (length (filter (\<lambda>u. flagged_interrupted u = flagged_interrupted t) ts)) + 1))"
  have k: "?d2 k = d k" using assms(2) by (simp add: tracked_keys_def)
  show ?thesis
  proof (cases "num_of ?v")
    case None
    then show ?thesis using k by (simp add: update_totals_step[OF assms(1)] update_latency_nonnum)
  next
    case (Some x)
    have mx: "num_at ?d2 ''max_latency'' = Some (Max (set (Fin 0 # positives ''total_latency'' ts)))"
      using assms(1) by (simp add: counts_def num_at_def)
    have mn: "num_at ?d2 ''min_latency'' = Some (Min (set (PInf # positives ''total_latency'' ts)))"
      using assms(1) by (simp add: counts_def num_at_def)
    have hi: "?d2 ''high_latency_turns'' =
       Some (VNum (real (length (filter (\<lambda>x. Fin 2 < x) (positives ''total_latency'' ts)))))"
      using assms(1) by (simp add: counts_def)
    show ?thesis
      using k assms(2)
      by (simp add: update_totals_step[OF assms(1)] update_latency_num[OF mx mn hi Some] Let_def tracked_keys_def)
  qed
qed

lemma after_latency_lookup:
  fixes d :: dict
  assumes "num_at d ''max_latency'' = Some M" "num_at d ''min_latency'' = Some m"
    "d ''high_latency_turns'' = Some (VNum h)" "num_of v = Some x"
  defines "d3 \<equiv> if M < x then d(''max_latency'' \<mapsto> v) else d"
  defines "d4 \<equiv> if x < m then d3(''min_latency'' \<mapsto> v) else d3"
  defines "d5 \<equiv> if Fin 2 < x then d4(''high_latency_turns'' \<mapsto> VNum (h + 1)) else d4"
  shows "num_at d5 ''max_latency'' = Some (max M x)"
    and "num_at d5 ''min_latency'' = Some (min m x)"
    and "d5 ''high_latency_turns'' = Some (VNum (if Fin 2 < x then h + 1 else h))"
    and "k \<noteq> ''max_latency'' \<Longrightarrow> k \<noteq> ''min_latency'' \<Longrightarrow> k \<noteq> ''high_latency_turns'' \<Longrightarrow> d5 k = d k"
  using assms(1-4) unfolding d5_def d4_def d3_def
  by (auto simp add: num_at_def max_def min_def)

lemma update_totals_counts:
  assumes "counts ts d"
  shows "counts (ts @ [t]) (snd (update_totals t d))"
proof -
  let ?v = "get_or t ''total_latency'' (VNum 0)"
  let ?L = "positives ''total_latency'' ts"
  let ?d2 = "d(''total_turns'' \<mapsto> VNum (real (length ts) + 1),
          (if flagged_interrupted t then ''interrupted_turns'' else ''successful_turns'') \<mapsto>
            VNum (real (length (filter (\<lambda>u. flagged_interrupted u = flagged_interrupted t) ts)) + 1))"
  define M where "M = Max (set (Fin 0 # ?L))"
  define m where "m = Min (set (PInf # ?L))"
  define h where "h = real (length (filter (\<lambda>x. Fin 2 < x) ?L))"
  have mx: "num_at ?d2 ''max_latency'' = Some M"
    using assms(1) unfolding M_def by (simp add: counts_def num_at_def)
  have mn: "num_at ?d2 ''min_latency'' = Some m"
    using assms(1) unfolding m_def by (simp add: counts_def num_at_def)
  have hi: "?d2 ''high_latency_turns'' = Some (VNum h)"
    using assms(1) unfolding h_def by (simp add: counts_def)
  have base: "?d2 ''total_turns'' = Some (VNum (real (length (ts @ [t]))))"
    "?d2 ''interrupted_turns'' = Some (VNum (real (length (filter flagged_interrupted (ts @ [t])))))"
    "?d2 ''successful_turns'' =
       Some (VNum (real (length (filter (\<lambda>t. \<not> flagged_interrupted t) (ts @ [t])))))"
    using assms(1) by (simp_all add: counts_def)
  have unchanged: "counts (ts @ [t]) ?d2" if "measured ''total_latency'' t = None"
    unfolding counts_def positives_snoc that
    using base mx mn hi unfolding M_def m_def h_def by simp
  show ?thesis
  proof (cases "num_of ?v")
    case None
    then have m0: "measured ''total_latency'' t = None"
      by (simp add: measured_get_or)
    have "snd (update_totals t d) = ?d2"
      using None by (simp add: update_totals_step[OF assms(1)] update_latency_nonnum)
    then show ?thesis using unchanged[OF m0] by simp
  next
    case (Some x)
    note closed = update_latency_num[OF mx mn hi Some]
    show ?thesis
    proof (cases "Fin 0 < x")
      case False
      then have m0: "measured ''total_latency'' t = None"
        using Some by (simp add: measured_get_or)
      have "snd (update_totals t d) = ?d2"
        using False by (simp add: update_totals_step[OF assms(1)] closed)
      then show ?thesis using unchanged[OF m0] by simp
    next
      case True
      then have m1: "measured ''total_latency'' t = Some x"
        using Some by (simp add: measured_get_or)
      let ?d3 = "if M < x then ?d2(''max_latency'' \<mapsto> ?v) else ?d2"
      let ?d4 = "if x < m then ?d3(''min_latency'' \<mapsto> ?v) else ?d3"
      let ?d5 = "if Fin 2 < x then ?d4(''high_latency_turns'' \<mapsto> VNum (h + 1)) else ?d4"
      have res: "snd (update_totals t d) = ?d5"
        using True by (simp add: update_totals_step[OF assms(1)] closed Let_def)
      note look = after_latency_lookup[OF mx mn hi Some]
      have P: "positives ''total_latency'' (ts @ [t]) = ?L @ [x]"
        by (simp add: positives_snoc m1)
      have c1: "?d5 ''total_turns'' = Some (VNum (real (length (ts @ [t]))))"
        by (rule trans[OF look(4) base(1)]) simp_all
      have c2: "?d5 ''interrupted_turns'' = Some (VNum (real (length (filter flagged_interrupted (ts @ [t])))))"
        by (rule trans[OF look(4) base(2)]) simp_all
      have c3: "?d5 ''successful_turns'' =
         Some (VNum (real (length (filter (\<lambda>t. \<not> flagged_interrupted t) (ts @ [t])))))"
        by (rule trans[OF look(4) base(3)]) simp_all
      have c4: "num_at ?d5 ''max_latency'' = Some (Max (set (Fin 0 # ?L @ [x])))"
        unfolding Max_snoc using look(1) by (simp only: M_def)
      have c5: "num_at ?d5 ''min_latency'' = Some (Min (set (PInf # ?L @ [x])))"
        unfolding Min_snoc using look(2) by (simp only: m_def)
      have c6: "?d5 ''high_latency_turns'' =
         Some (VNum (real (length (filter (\<lambda>x. Fin 2 < x) (?L @ [x])))))"
        using look(3) by (simp add: h_def)
      show ?thesis
        unfolding counts_def res P
        using c1 c2 c3 c4 c5 c6 by blast
    qed
  qed
qed

lemma initial_counts: "counts [] (initial_data t0)"
  by (simp add: counts_def initial_data_def num_at_def positives_def)

lemma running_start: "running t0 (snd (start_session t0 s0))"
  by (simp add: running_def start_session_def emit_def initial_counts)

lemma start_session_fields:
  "turn_metrics (snd (start_session t0 s0)) = []"
  "written (snd (start_session t0 s0)) = written s0"
  "output_dir (snd (start_session t0 s0)) = output_dir s0"
  "session_data (snd (start_session t0 s0)) = initial_data t0"
  "session_start_time (snd (start_session t0 s0)) = Some t0"
  "logged (snd (start_session t0 s0)) = logged s0 @ [(INFO, ''Started new session'')]"
  "fst (start_session t0 s0) = Returned"
  by (simp_all add: start_session_def emit_def)

lemma running_session_id:
  "running t0 s \<Longrightarrow> session_data s ''session_id'' = Some (VStr (ymd_hms t0))"
  by (simp add: running_def tracked_keys_def initial_data_def)

lemma add_turn_metrics_running:
  fixes now :: datetime and m :: dict and s :: metrics_logger
  assumes "running t0 s"
  defines "s' \<equiv> snd (add_turn_metrics now m s)"
  shows "session_start_time s' = Some t0"
    and "turn_metrics s' = turn_metrics s @ [stamped now (VStr (ymd_hms t0)) m]"
    and "session_data s' = snd (update_totals (stamped now (VStr (ymd_hms t0)) m) (session_data s))"
    and "written s' = written s"
    and "output_dir s' = output_dir s"
proof -
  have st: "session_start_time s = Some t0" using assms(1) by (simp add: running_def)
  note sid = running_session_id[OF assms(1)]
  obtain r d where u: "update_totals (stamped now (VStr (ymd_hms t0)) m) (session_data s) = (r, d)"
    by (cases "update_totals (stamped now (VStr (ymd_hms t0)) m) (session_data s)")
  have "session_start_time s' = Some t0 \<and>
    turn_metrics s' = turn_metrics s @ [stamped now (VStr (ymd_hms t0)) m] \<and>
    session_data s' = d \<and> written s' = written s \<and> output_dir s' = output_dir s"
    unfolding s'_def using st sid u
    by (cases r) (simp_all add: add_turn_metrics_def on_data_def emit_def Let_def)
  then show "session_start_time s' = Some t0"
    and "turn_metrics s' = turn_metrics s @ [stamped now (VStr (ymd_hms t0)) m]"
    and "session_data s' = snd (update_totals (stamped now (VStr (ymd_hms t0)) m) (session_data s))"
    and "written s' = written s"
    and "output_dir s' = output_dir s"
    using u by simp_all
qed

lemma add_turn_metrics_keeps_running:
  assumes "running t0 s"
  shows "running t0 (snd (add_turn_metrics now m s))"
proof -
  note f = add_turn_metrics_running[OF assms]
  have c: "counts (turn_metrics s) (session_data s)" using assms by (simp add: running_def)
  have fr: "\<forall>k. k \<notin> set tracked_keys \<longrightarrow> session_data s k = initial_data t0 k"
    using assms by (simp add: running_def)
  show ?thesis
    unfolding running_def f(1) f(2) f(3)
    using update_totals_counts[OF c] update_totals_frame[OF c] fr by simp
qed

lemma add_turns_running:
  assumes "running t0 s"
  shows "running t0 (add_turns calls s)"
    and "turn_metrics (add_turns calls s) = turn_metrics s @ map (stamp_call t0) calls"
    and "written (add_turns calls s) = written s"
    and "output_dir (add_turns calls s) = output_dir s"
  using assms
proof (induction calls arbitrary: s)
  case Nil
  {
    case 1 then show ?case by simp
  next
    case 2 then show ?case by simp
  next
    case 3 then show ?case by simp
  next
    case 4 then show ?case by simp
  }
next
  case (Cons c calls)
  {
    case 1
    then show ?case
      using Cons.IH(1)[OF add_turn_metrics_keeps_running[OF 1]] by simp
  next
    case 2
    then show ?case
      using Cons.IH(2)[OF add_turn_metrics_keeps_running[OF 2]]
      by (simp add: add_turn_metrics_running(2)[OF 2] stamp_call_def)
  next
    case 3
    then show ?case
      using Cons.IH(3)[OF add_turn_metrics_keeps_running[OF 3]]
      by (simp add: add_turn_metrics_running(4)[OF 3])
  next
    case 4
    then show ?case
      using Cons.IH(4)[OF add_turn_metrics_keeps_running[OF 4]]
      by (simp add: add_turn_metrics_running(5)[OF 4])
  }
qed

lemma started_running:
  "running t0 (started t0 calls s0)"
  "turn_metrics (started t0 calls s0) = map (stamp_call t0) calls"
  "written (started t0 calls s0) = written s0"
  "output_dir (started t0 calls s0) = output_dir s0"
proof -
  have r: "running t0 (snd (start_session t0 s0))" by (rule running_start)
  show "running t0 (started t0 calls s0)"
    unfolding started_def by (rule add_turns_running(1)[OF r])
  show "turn_metrics (started t0 calls s0) = map (stamp_call t0) calls"
    unfolding started_def by (simp add: add_turns_running(2)[OF r] start_session_fields)
  show "written (started t0 calls s0) = written s0"
    unfolding started_def by (simp add: add_turns_running(3)[OF r] start_session_fields)
  show "output_dir (started t0 calls s0) = output_dir s0"
    unfolding started_def by (simp add: add_turns_running(4)[OF r] start_session_fields)
qed

lemma measured_stamped:
  "metric \<noteq> ''timestamp'' \<Longrightarrow> metric \<noteq> ''session_id'' \<Longrightarrow>
   measured metric (stamped now sid m) = measured metric m"
  by (simp add: measured_def stamped_def)

lemma flagged_stamped: "flagged_interrupted (stamped now sid m) = flagged_interrupted m"
  by (simp add: flagged_interrupted_def stamped_def)

lemma positives_stamped:
  "metric \<noteq> ''timestamp'' \<Longrightarrow> metric \<noteq> ''session_id'' \<Longrightarrow>
   positives metric (map (stamp_call t0) calls) = positives metric (map snd calls)"
  by (induction calls)
     (auto simp add: positives_def stamp_call_def measured_stamped split: option.splits)

lemma filter_flagged_stamped:
  "length (filter flagged_interrupted (map (stamp_call t0) calls)) =
   length (filter (\<lambda>c. flagged_interrupted (snd c)) calls)"
  "length (filter (\<lambda>t. \<not> flagged_interrupted t) (map (stamp_call t0) calls)) =
   length (filter (\<lambda>c. \<not> flagged_interrupted (snd c)) calls)"
  by (induction calls) (simp_all add: stamp_call_def flagged_stamped)

lemma qualifying_stamped:
  "metric \<noteq> ''timestamp'' \<Longrightarrow> metric \<noteq> ''session_id'' \<Longrightarrow>
   qualifying metric (map (stamp_call t0) calls) = qualifying metric (map snd calls)"
  by (induction calls)
     (auto simp add: qualifying_def positives_def stamp_call_def measured_stamped flagged_stamped
        split: option.splits)

lemma positives_positive: "x \<in> set (positives metric ts) \<Longrightarrow> Fin 0 < x"
proof (induction ts)
  case Nil
  then show ?case by (simp add: positives_def)
next
  case (Cons t ts)
  then show ?case
    by (cases "measured metric t")
       (auto simp add: positives_def measured_def split: option.splits if_splits)
qed

lemma xnum_PInf_le [simp]: "(PInf \<le> x) = (x = PInf)"
  by (cases x) simp_all

lemma Max_with_floor:
  assumes "L \<noteq> []" "\<forall>x\<in>set L. Fin 0 < x"
  shows "Max (set (Fin 0 # L)) = Max (set L)"
proof -
  obtain y where y: "y \<in> set L" using assms(1) by (cases L) auto
  have "Fin 0 < y" using assms(2) y by blast
  also have "y \<le> Max (set L)" using y by simp
  finally have le: "Fin 0 \<le> Max (set L)" by simp
  have "Max (insert (Fin 0) (set L)) = max (Fin 0) (Max (set L))"
    by (rule Max_insert) (use assms(1) in auto)
  then show ?thesis using le by (simp add: max_def del: Max_insert)
qed

lemma Min_with_ceiling:
  assumes "L \<noteq> []"
  shows "Min (set (PInf # L)) = Min (set L)"
proof -
  have "Min (insert PInf (set L)) = min PInf (Min (set L))"
    by (rule Min_insert) (use assms in auto)
  then show ?thesis by (simp add: min_def del: Min_insert)
qed

lemma started_counts:
  "counts (map (stamp_call t0) calls) (session_data (started t0 calls s0))"
  using started_running(1)[of t0 calls s0] by (simp add: running_def started_running(2))

lemma numeric_get_or: "numeric metric t = (num_of (get_or t metric (VNum 0)) \<noteq> None)"
  by (cases "t metric") (simp_all add: numeric_def get_or_def)

lemma py_gt_zero:
  "py_gt (get_or t metric (VNum 0)) (VNum 0) =
     (if numeric metric t then Inr (measured metric t \<noteq> None) else Inl TypeError)"
proof (cases "num_of (get_or t metric (VNum 0))")
  case None
  then show ?thesis by (simp add: numeric_get_or)
next
  case (Some x)
  then show ?thesis by (simp add: numeric_get_or measured_get_or)
qed

lemma filter_e_positive:
  "filter_e (\<lambda>t. py_gt (get_or t metric (VNum 0)) (VNum 0)) ts =
     (if list_all (numeric metric) ts
      then Inr (filter (\<lambda>t. measured metric t \<noteq> None) ts)
      else Inl TypeError)"
  by (induction ts) (simp_all add: py_gt_zero)

lemma positive_values_closed:
  "positive_values metric ts =
     (if list_all (numeric metric) ts
      then Inr (map (\<lambda>t. get_or t metric (VNum 0)) (filter (\<lambda>t. measured metric t \<noteq> None) ts))
      else Inl TypeError)"
  by (simp add: positive_values_def filter_e_positive)

lemma num_of_measured:
  "measured metric t \<noteq> None \<Longrightarrow> num_of (get_or t metric (VNum 0)) = measured metric t"
  by (cases "num_of (get_or t metric (VNum 0))") (auto simp add: measured_get_or split: if_splits)

lemma num_of_positive_values:
  "map num_of (map (\<lambda>t. get_or t metric (VNum 0)) (filter (\<lambda>t. measured metric t \<noteq> None) ts)) =
   map Some (positives metric ts)"
proof (induction ts)
  case Nil
  then show ?case by (simp add: positives_def)
next
  case (Cons t ts)
  then show ?case
    by (cases "measured metric t") (auto simp add: positives_def num_of_measured)
qed

lemma numbers_numeric:
  "map num_of vs = map Some xs \<Longrightarrow> numbers vs = Some xs"
proof (induction vs arbitrary: xs)
  case Nil
  then show ?case by simp
next
  case (Cons v vs)
  then obtain x xs' where xs: "xs = x # xs'" "num_of v = Some x" "map num_of vs = map Some xs'"
    by (cases xs) auto
  then show ?case using Cons.IH[OF xs(3)] by simp
qed

lemma foldl_xadd_PInf: "foldl xadd PInf xs = PInf"
  by (induction xs) simp_all

lemma foldl_xadd_Fin:
  "foldl xadd (Fin a) xs =
     (if PInf \<in> set xs then PInf else Fin (a + sum_list (map fin_of xs)))"
proof (induction xs arbitrary: a)
  case Nil
  then show ?case by simp
next
  case (Cons x xs)
  show ?case
  proof (cases x)
    case (Fin b)
    then show ?thesis using Cons.IH[of "a + b"] by (simp add: add.assoc)
  next
    case PInf
    then show ?thesis by (simp add: foldl_xadd_PInf)
  qed
qed

text \<open>Without rounding, the interpreter's mean is the arithmetic mean.\<close>

lemma float_mean_exact:
  "exact_on env metric xs \<Longrightarrow> float_mean env metric xs = Inr (mean xs)"
  by (simp add: exact_on_def float_mean_def exact_sum_def exact_quotient_def foldl_xadd_Fin
      mean_def)

lemma sum_div_len_numeric:
  assumes "map num_of vs = map Some xs" "xs \<noteq> []"
  shows "sum_div_len env metric vs =
           (case float_mean env metric xs of Inr a \<Rightarrow> Inr (val_of a) | Inl e \<Rightarrow> Inl e)"
proof -
  have len: "length vs = length xs" using assms(1) by (metis length_map)
  then have ne: "length vs \<noteq> 0" using assms(2) by simp
  show ?thesis
    using ne
    by (simp add: sum_div_len_def py_sum_def numbers_numeric[OF assms(1)] py_div_def
        float_mean_def len bind_e_def split: sum.splits)
qed

lemma min_from_numeric:
  "num_of m = Some a \<Longrightarrow> map num_of vs = map Some xs \<Longrightarrow>
   \<exists>v. min_from m vs = Inr v \<and> num_of v = Some (Min (set (a # xs)))"
proof (induction vs arbitrary: m a xs)
  case Nil
  then show ?case by simp
next
  case (Cons v vs)
  then obtain x xs' where xs: "xs = x # xs'" "num_of v = Some x" "map num_of vs = map Some xs'"
    by (cases xs) auto
  have n: "num_of (if x < a then v else m) = Some (min x a)"
    using xs(2) Cons.prems(1) by (auto simp add: min_def)
  from Cons.IH[OF n xs(3)] obtain w where
    w: "min_from (if x < a then v else m) vs = Inr w" "num_of w = Some (Min (set (min x a # xs')))"
    by blast
  have "Min (set (min x a # xs')) = Min (set (a # x # xs'))"
  proof (cases "xs' = []")
    case True
    then show ?thesis by (simp add: min.commute)
  next
    case False
    then show ?thesis by (simp add: min.assoc min.commute min.left_commute)
  qed
  then show ?case using w xs Cons.prems(1) by simp
qed

lemma max_from_numeric:
  "num_of m = Some a \<Longrightarrow> map num_of vs = map Some xs \<Longrightarrow>
   \<exists>v. max_from m vs = Inr v \<and> num_of v = Some (Max (set (a # xs)))"
proof (induction vs arbitrary: m a xs)
  case Nil
  then show ?case by simp
next
  case (Cons v vs)
  then obtain x xs' where xs: "xs = x # xs'" "num_of v = Some x" "map num_of vs = map Some xs'"
    by (cases xs) auto
  have n: "num_of (if a < x then v else m) = Some (max x a)"
    using xs(2) Cons.prems(1) by (auto simp add: max_def)
  from Cons.IH[OF n xs(3)] obtain w where
    w: "max_from (if a < x then v else m) vs = Inr w" "num_of w = Some (Max (set (max x a # xs')))"
    by blast
  have "Max (set (max x a # xs')) = Max (set (a # x # xs'))"
  proof (cases "xs' = []")
    case True
    then show ?thesis by (simp add: max.commute)
  next
    case False
    then show ?thesis by (simp add: max.assoc max.commute max.left_commute)
  qed
  then show ?case using w xs Cons.prems(1) by simp
qed

lemma py_min_numeric:
  assumes "map num_of vs = map Some xs" "xs \<noteq> []"
  shows "\<exists>v. py_min vs = Inr v \<and> num_of v = Some (Min (set xs))"
proof -
  obtain x xs' where xs: "xs = x # xs'" using assms(2) by (cases xs) auto
  then obtain v vs' where vs: "vs = v # vs'" "num_of v = Some x" "map num_of vs' = map Some xs'"
    using assms(1) by (cases vs) auto
  show ?thesis using min_from_numeric[OF vs(2) vs(3)] xs vs(1) by simp
qed

lemma py_max_numeric:
  assumes "map num_of vs = map Some xs" "xs \<noteq> []"
  shows "\<exists>v. py_max vs = Inr v \<and> num_of v = Some (Max (set xs))"
proof -
  obtain x xs' where xs: "xs = x # xs'" using assms(2) by (cases xs) auto
  then obtain v vs' where vs: "vs = v # vs'" "num_of v = Some x" "map num_of vs' = map Some xs'"
    using assms(1) by (cases vs) auto
  show ?thesis using max_from_numeric[OF vs(2) vs(3)] xs vs(1) by simp
qed

lemma average_metric_closed:
  "average_metric env valid metric d =
     (if list_all (numeric metric) valid
      then (if positives metric valid = [] then (Returned, d)
            else (case float_mean env metric (positives metric valid) of
                    Inr a \<Rightarrow> (Returned, d(''avg_'' @ metric \<mapsto> val_of a))
                  | Inl e \<Rightarrow> (Raised e, d)))
      else (Raised TypeError, d))"
proof (cases "list_all (numeric metric) valid")
  case False
  then show ?thesis by (simp add: average_metric_def positive_values_closed)
next
  case True
  let ?vs = "map (\<lambda>t. get_or t metric (VNum 0)) (filter (\<lambda>t. measured metric t \<noteq> None) valid)"
  have n: "map num_of ?vs = map Some (positives metric valid)"
    by (rule num_of_positive_values)
  have e: "(?vs = []) = (positives metric valid = [])"
    using n by (metis map_is_Nil_conv)
  show ?thesis
  proof (cases "positives metric valid = []")
    case True
    then show ?thesis
      using \<open>list_all (numeric metric) valid\<close> e
      by (simp add: average_metric_def positive_values_closed)
  next
    case False
    then have "?vs \<noteq> []" using e by simp
    then show ?thesis
      using \<open>list_all (numeric metric) valid\<close> False sum_div_len_numeric[OF n False]
      by (simp add: average_metric_def positive_values_closed split: sum.splits)
  qed
qed

text \<open>One step of the loop of lines 114-118: it raises and leaves the state, or returns
  and changes at most the average of its metric.\<close>

lemma average_metric_step:
  "average_metric env valid metric d = (r, d') \<Longrightarrow>
   (r \<noteq> Returned \<longrightarrow> d' = d) \<and>
   (\<forall>k. d' k \<noteq> d k \<longrightarrow> k = ''avg_'' @ metric \<and> positives metric valid \<noteq> []) \<and>
   (r = Returned \<longrightarrow> list_all (numeric metric) valid \<and>
      (if positives metric valid = [] then d' = d
       else \<exists>a. float_mean env metric (positives metric valid) = Inr a \<and>
                d' = d(''avg_'' @ metric \<mapsto> val_of a)))"
  unfolding average_metric_closed
  by (auto split: if_splits sum.splits)

lemma averages_loop_changes:
  "for_each ms (average_metric env valid) d = (r, d') \<Longrightarrow> d' k \<noteq> d k \<Longrightarrow>
   \<exists>m\<in>set ms. k = ''avg_'' @ m \<and> positives m valid \<noteq> []"
proof (induction ms arbitrary: d)
  case Nil
  then show ?case by simp
next
  case (Cons m ms)
  obtain r1 d1 where head: "average_metric env valid m d = (r1, d1)"
    by (cases "average_metric env valid m d")
  note st = average_metric_step[OF head]
  show ?case
  proof (cases r1)
    case (Raised e)
    then have "d' = d1" using Cons.prems(1) by (simp only: for_each.simps head and_then_simps) simp
    moreover have "d1 = d" using st Raised by simp
    ultimately show ?thesis using Cons.prems(2) by simp
  next
    case Returned
    have rest: "for_each ms (average_metric env valid) d1 = (r, d')"
      using Cons.prems(1) unfolding Returned[symmetric, THEN sym]
      by (simp only: for_each.simps head Returned and_then_simps)
    show ?thesis
    proof (cases "d' k = d1 k")
      case False
      then show ?thesis using Cons.IH[OF rest] by auto
    next
      case True
      then have "d1 k \<noteq> d k" using Cons.prems(2) by simp
      then have "k = ''avg_'' @ m \<and> positives m valid \<noteq> []"
        using st by blast
      then show ?thesis by simp
    qed
  qed
qed

lemma averages_loop_returned:
  "for_each ms (average_metric env valid) d = (Returned, d') \<Longrightarrow> distinct ms \<Longrightarrow> m \<in> set ms \<Longrightarrow>
   list_all (numeric m) valid \<and>
   (if positives m valid = [] then d' (''avg_'' @ m) = d (''avg_'' @ m)
    else \<exists>a. float_mean env m (positives m valid) = Inr a \<and>
             d' (''avg_'' @ m) = Some (val_of a))"
proof (induction ms arbitrary: d)
  case Nil
  then show ?case by simp
next
  case (Cons m' ms)
  obtain r1 d1 where head: "average_metric env valid m' d = (r1, d1)"
    by (cases "average_metric env valid m' d")
  note st = average_metric_step[OF head]
  have r1: "r1 = Returned"
  proof (cases r1)
    case Returned
    then show ?thesis .
  next
    case (Raised e)
    then show ?thesis using Cons.prems(1) by (simp only: for_each.simps head and_then_simps) simp
  qed
  have rest: "for_each ms (average_metric env valid) d1 = (Returned, d')"
    using Cons.prems(1) by (simp only: for_each.simps head r1 and_then_simps)
  show ?case
  proof (cases "m = m'")
    case True
    then have notin: "m \<notin> set ms" using Cons.prems(2) by simp
    have "d' (''avg_'' @ m) = d1 (''avg_'' @ m)"
    proof (rule ccontr)
      assume "d' (''avg_'' @ m) \<noteq> d1 (''avg_'' @ m)"
      from averages_loop_changes[OF rest this] obtain m2
        where "m2 \<in> set ms" "''avg_'' @ m = ''avg_'' @ m2" by blast
      then show False using notin by simp
    qed
    then show ?thesis using True st r1 by (auto split: if_splits)
  next
    case False
    then have "m \<in> set ms" using Cons.prems(3) by simp
    moreover have "distinct ms" using Cons.prems(2) by simp
    ultimately have
      ih: "list_all (numeric m) valid \<and>
        (if positives m valid = [] then d' (''avg_'' @ m) = d1 (''avg_'' @ m)
         else \<exists>a. float_mean env m (positives m valid) = Inr a \<and>
                  d' (''avg_'' @ m) = Some (val_of a))"
      using Cons.IH[OF rest] by blast
    have "d1 (''avg_'' @ m) = d (''avg_'' @ m)"
      using st False by auto
    then show ?thesis using ih by (auto split: if_splits)
  qed
qed

lemma valid_turns_eq: "valid_turns ts = filter (\<lambda>t. \<not> flagged_interrupted t) ts"
  by (simp add: valid_turns_def truthy_get_or)

lemma qualifying_valid: "positives metric (valid_turns ts) = qualifying metric ts"
  by (simp add: qualifying_def valid_turns_eq)

lemma positives_Nil [simp]: "positives metric [] = []"
  by (simp add: positives_def)

lemma qualifying_no_valid: "valid_turns ts = [] \<Longrightarrow> qualifying metric ts = []"
  using qualifying_valid[of metric ts] by simp

text \<open>Lines 91-92 of \<^verbatim>\<open>end_session\<close>.\<close>

lemma averaging_phase:
  assumes "(if turn_metrics s \<noteq> [] then calculate_averages env s else (Returned, s)) = (r, s')"
  shows "s' = s\<lparr>session_data := session_data s'\<rparr>"
    and "session_data s' k \<noteq> session_data s k \<Longrightarrow>
         \<exists>m\<in>set metrics_to_avg. k = ''avg_'' @ m \<and> qualifying m (turn_metrics s) \<noteq> []"
    and "r = Returned \<Longrightarrow> m \<in> set metrics_to_avg \<Longrightarrow>
         list_all (numeric m) (valid_turns (turn_metrics s)) \<and>
         (if qualifying m (turn_metrics s) = []
          then session_data s' (''avg_'' @ m) = session_data s (''avg_'' @ m)
          else \<exists>a. float_mean env m (qualifying m (turn_metrics s)) = Inr a \<and>
                   session_data s' (''avg_'' @ m) = Some (val_of a))"
proof -
  let ?valid = "valid_turns (turn_metrics s)"
  show "s' = s\<lparr>session_data := session_data s'\<rparr>"
    using assms
    by (auto simp add: calculate_averages_def on_data_def Let_def split: if_splits prod.splits)
  show "\<exists>m\<in>set metrics_to_avg. k = ''avg_'' @ m \<and> qualifying m (turn_metrics s) \<noteq> []"
    if "session_data s' k \<noteq> session_data s k"
  proof (cases "turn_metrics s \<noteq> [] \<and> ?valid \<noteq> []")
    case False
    then have "s' = s" using assms by (auto simp add: calculate_averages_def Let_def split: if_splits)
    then show ?thesis using that by simp
  next
    case True
    obtain d' where d': "for_each metrics_to_avg (average_metric env ?valid) (session_data s) = (r, d')"
      "session_data s' = d'"
      using assms True
      by (auto simp add: calculate_averages_def on_data_def Let_def split: prod.splits)
    show ?thesis
      using averages_loop_changes[OF d'(1), of k] that d'(2) by (simp add: qualifying_valid)
  qed
  show "list_all (numeric m) ?valid \<and>
         (if qualifying m (turn_metrics s) = []
          then session_data s' (''avg_'' @ m) = session_data s (''avg_'' @ m)
          else \<exists>a. float_mean env m (qualifying m (turn_metrics s)) = Inr a \<and>
                   session_data s' (''avg_'' @ m) = Some (val_of a))"
    if "r = Returned" "m \<in> set metrics_to_avg"
  proof (cases "turn_metrics s \<noteq> [] \<and> ?valid \<noteq> []")
    case False
    then have "s' = s" using assms by (auto simp add: calculate_averages_def Let_def split: if_splits)
    moreover have "?valid = []" using False by (auto simp add: valid_turns_def)
    ultimately show ?thesis by (simp add: qualifying_no_valid)
  next
    case True
    obtain d' where d': "for_each metrics_to_avg (average_metric env ?valid) (session_data s) = (r, d')"
      "session_data s' = d'"
      using assms True
      by (auto simp add: calculate_averages_def on_data_def Let_def split: prod.splits)
    have dist: "distinct metrics_to_avg" by (simp add: metrics_to_avg_def)
    show ?thesis
      using averages_loop_returned[OF d'(1)[unfolded that(1)] dist that(2)]
      unfolding d'(2) qualifying_valid by blast
  qed
qed

text \<open>The averaging asks the environment for its arithmetic only.\<close>

lemma calculate_averages_working:
  "calculate_averages (working env) s = calculate_averages env s"
proof -
  have a: "sum_of (working env) = sum_of env" "quotient_of (working env) = quotient_of env"
    by (simp_all add: working_def)
  have b: "sum_div_len (working env) = sum_div_len env"
    unfolding sum_div_len_def py_sum_def py_div_def a by (rule refl)
  have c: "average_metric (working env) = average_metric env"
    unfolding average_metric_def b by (rule refl)
  show ?thesis unfolding calculate_averages_def c by (rule refl)
qed

lemma closed_data_working:
  "closed_data (working env) t0 now ov d = closed_data env t0 now ov d"
  by (simp add: closed_data_def working_def)

lemma running_start_time:
  "running t0 s \<Longrightarrow> session_data s ''start_time'' = Some (VTime t0)"
  by (simp add: running_def tracked_keys_def initial_data_def)

lemma close_times_running:
  assumes "d ''start_time'' = Some (VTime t0)"
  shows "close_times env now d =
    (Returned, d(''end_time'' \<mapsto> VTime now, ''duration'' \<mapsto> VNum (total_seconds env (instant now - instant t0))))"
  using assms by (simp add: close_times_def Let_def seconds_between_def)

lemma end_session_running:
  assumes "running t0 s"
  shows "end_session now ov env s =
    and_then
      (if turn_metrics s \<noteq> []
       then calculate_averages env (s\<lparr>session_data := closed_data env t0 now ov (session_data s)\<rparr>)
       else (Returned, s\<lparr>session_data := closed_data env t0 now ov (session_data s)\<rparr>))
      (\<lambda>s. and_then (on_data fix_min_latency s) (\<lambda>s.
           and_then (save_to_excel env s) log_session_end))"
proof -
  have st: "session_start_time s = Some t0" using assms by (simp add: running_def)
  have ct: "close_times env now (session_data s) =
    (Returned, (session_data s)(''end_time'' \<mapsto> VTime now,
       ''duration'' \<mapsto> VNum (total_seconds env (instant now - instant t0))))"
    using running_start_time[OF assms] by (rule close_times_running)
  show ?thesis
    by (simp add: end_session_def st on_data_def ct closed_data_def)
qed

lemma fix_min_latency_present:
  "d ''min_latency'' = Some v \<Longrightarrow>
   fix_min_latency d = (Returned, if is_inf v then d(''min_latency'' \<mapsto> VNum 0) else d)"
  by (simp add: fix_min_latency_def)

lemma save_as_csv_fallback_closed:
  "save_as_csv_fallback env sid s =
    (Returned,
     if session_csv_ok env
     then (if turn_metrics s \<noteq> [] \<and> \<not> turn_csv_ok env
           then emit ERROR ''Failed to save CSV fallback''
                  (s\<lparr>written := written s @ [SessionCsv sid [session_data s]]\<rparr>)
           else emit INFO ''Metrics saved as CSV files''
                  (s\<lparr>written := written s @ [SessionCsv sid [session_data s]]
                        @ (if turn_metrics s \<noteq> [] then [TurnCsv sid (turn_metrics s)] else [])\<rparr>))
     else emit ERROR ''Failed to save CSV fallback'' s)"
  by (simp add: save_as_csv_fallback_def write_file_def emit_def)

lemma save_to_excel_ok:
  assumes "session_data s ''session_id'' = Some sid" "excel_ok env"
    and "create_latency_analysis_sheet env (turn_metrics s) = Inr a"
  shows "save_to_excel env s =
    (Returned, emit INFO ''Metrics saved''
       (s\<lparr>written := written s @ [Workbook sid (workbook_sheets s a)]\<rparr>))"
  using assms by (simp add: save_to_excel_def)

text \<open>A primary export that fails: what it leaves, and the fallback after it.\<close>

lemma save_to_excel_failing:
  assumes "session_data s ''session_id'' = Some sid" "\<not> excel_ok env"
  shows "save_to_excel env s =
     save_as_csv_fallback env sid
       (emit ERROR ''Failed to save metrics to Excel''
          (s\<lparr>written := written s @ leftover env sid\<rparr>))"
  using assms
  by (cases "create_latency_analysis_sheet env (turn_metrics s)")
     (simp_all add: save_to_excel_def abandon_def leftover_def split: option.splits)

lemma save_to_excel_returns:
  assumes "session_data s ''session_id'' = Some sid"
  shows "fst (save_to_excel env s) = Returned"
    and "session_data (snd (save_to_excel env s)) = session_data s"
    and "turn_metrics (snd (save_to_excel env s)) = turn_metrics s"
    and "session_start_time (snd (save_to_excel env s)) = session_start_time s"
  using assms
  by (cases "create_latency_analysis_sheet env (turn_metrics s)";
      simp add: save_to_excel_def abandon_def save_as_csv_fallback_closed emit_def
        split: option.splits)+

lemma log_session_end_closed:
  assumes "session_data s ''session_id'' = Some sid" "session_data s ''duration'' = Some dur"
    "session_data s ''total_turns'' = Some n"
  shows "log_session_end s =
    (case format_2f dur of
       Inr u \<Rightarrow> (Returned, emit INFO ''Duration, Turns'' (emit INFO ''Session ended'' s))
     | Inl e \<Rightarrow> (Raised e, emit INFO ''Session ended'' s))"
  using assms by (simp add: log_session_end_def Let_def emit_def eval_in_def split: sum.splits)


lemma merge_summary_lookup:
  "merge_summary ov d k =
     (case ov of None \<Rightarrow> d k | Some m \<Rightarrow> (case m k of None \<Rightarrow> d k | Some v \<Rightarrow> Some v))"
  by (simp add: merge_summary_def map_add_def split: option.splits)

lemma merge_summary_present:
  "d k = Some v \<Longrightarrow> \<exists>w. merge_summary ov d k = Some w"
  by (simp add: merge_summary_lookup split: option.splits)

lemma running_present:
  assumes "running t0 s"
  shows "\<exists>v. session_data s ''min_latency'' = Some v"
    and "\<exists>v. session_data s ''total_turns'' = Some v"
proof -
  have c: "counts (turn_metrics s) (session_data s)" using assms by (simp add: running_def)
  show "\<exists>v. session_data s ''min_latency'' = Some v"
    using c num_atD unfolding counts_def by blast
  show "\<exists>v. session_data s ''total_turns'' = Some v"
    using c unfolding counts_def by blast
qed

lemma closed_data_present:
  assumes "running t0 s"
  shows "\<exists>v. closed_data env t0 now ov (session_data s) ''min_latency'' = Some v"
    and "\<exists>v. closed_data env t0 now ov (session_data s) ''total_turns'' = Some v"
    and "\<exists>v. closed_data env t0 now ov (session_data s) ''session_id'' = Some v"
    and "\<exists>v. closed_data env t0 now ov (session_data s) ''duration'' = Some v"
proof -
  from running_present[OF assms] obtain a b where
    a: "session_data s ''min_latency'' = Some a" and b: "session_data s ''total_turns'' = Some b"
    by blast
  show "\<exists>v. closed_data env t0 now ov (session_data s) ''min_latency'' = Some v"
    unfolding closed_data_def by (rule merge_summary_present[where v = a]) (simp add: a)
  show "\<exists>v. closed_data env t0 now ov (session_data s) ''total_turns'' = Some v"
    unfolding closed_data_def by (rule merge_summary_present[where v = b]) (simp add: b)
  show "\<exists>v. closed_data env t0 now ov (session_data s) ''session_id'' = Some v"
    unfolding closed_data_def
    by (rule merge_summary_present[where v = "VStr (ymd_hms t0)"])
       (simp add: running_session_id[OF assms])
  show "\<exists>v. closed_data env t0 now ov (session_data s) ''duration'' = Some v"
    unfolding closed_data_def
    by (rule merge_summary_present[where v = "VNum (total_seconds env (instant now - instant t0))"]) simp
qed

lemma not_avg_key:
  "k \<in> {''min_latency'', ''total_turns'', ''session_id'', ''duration''} \<Longrightarrow>
   \<not> (\<exists>m\<in>set metrics_to_avg. k = ''avg_'' @ m \<and> P m)"
  by auto

lemma end_session_running_cases:
  fixes s :: metrics_logger and now :: datetime and ov :: "dict option" and env :: environment
  assumes "running t0 s"
  defines "s2 \<equiv> s\<lparr>session_data := closed_data env t0 now ov (session_data s)\<rparr>"
  defines "ph \<equiv> (if turn_metrics s \<noteq> [] then calculate_averages env s2 else (Returned, s2))"
  shows "fst ph = Raised e \<Longrightarrow> end_session now ov env s = ph"
    and "fst ph = Returned \<Longrightarrow>
         end_session now ov env s =
           log_session_end (snd (save_to_excel env
             ((snd ph)\<lparr>session_data := snd (fix_min_latency (session_data (snd ph)))\<rparr>)))"
    and "snd ph = s2\<lparr>session_data := session_data (snd ph)\<rparr>"
    and "k \<in> {''min_latency'', ''total_turns'', ''session_id'', ''duration''} \<Longrightarrow>
         session_data (snd ph) k = closed_data env t0 now ov (session_data s) k"
proof -
  have tm: "turn_metrics s2 = turn_metrics s" by (simp add: s2_def)
  obtain r3 s3 where ph3: "ph = (r3, s3)" by (cases ph)
  have ph2: "(if turn_metrics s2 \<noteq> [] then calculate_averages env s2 else (Returned, s2)) = (r3, s3)"
    using ph3 by (simp add: ph_def tm)
  note ap = averaging_phase[OF ph2]
  have es: "end_session now ov env s =
    and_then ph (\<lambda>s. and_then (on_data fix_min_latency s) (\<lambda>s.
           and_then (save_to_excel env s) log_session_end))"
    unfolding ph_def s2_def by (rule end_session_running[OF assms(1)])
  show frame: "session_data (snd ph) k = closed_data env t0 now ov (session_data s) k"
    if "k \<in> {''min_latency'', ''total_turns'', ''session_id'', ''duration''}" for k
  proof (rule ccontr)
    assume "session_data (snd ph) k \<noteq> closed_data env t0 now ov (session_data s) k"
    then have "session_data s3 k \<noteq> session_data s2 k" by (simp add: ph3 s2_def)
    from ap(2)[OF this] show False using not_avg_key[OF that] by blast
  qed
  show "snd ph = s2\<lparr>session_data := session_data (snd ph)\<rparr>"
    using ap(1) by (simp add: ph3)
  show "end_session now ov env s = ph" if "fst ph = Raised e"
    using that by (simp add: es ph3)
  show "end_session now ov env s =
           log_session_end (snd (save_to_excel env
             ((snd ph)\<lparr>session_data := snd (fix_min_latency (session_data (snd ph)))\<rparr>)))"
    if "fst ph = Returned"
  proof -
    have r3: "r3 = Returned" using that by (simp add: ph3)
    obtain v where v: "session_data s3 ''min_latency'' = Some v"
      using closed_data_present(1)[OF assms(1), where env = env and now = now and ov = ov]
        frame[of "''min_latency''"] by (auto simp add: ph3)
    obtain sid where sid: "session_data s3 ''session_id'' = Some sid"
      using closed_data_present(3)[OF assms(1), where env = env and now = now and ov = ov]
        frame[of "''session_id''"] by (auto simp add: ph3)
    let ?d4 = "snd (fix_min_latency (session_data s3))"
    have fm: "fix_min_latency (session_data s3) = (Returned, ?d4)"
      using v by (simp add: fix_min_latency_present)
    have sid4: "session_data (s3\<lparr>session_data := ?d4\<rparr>) ''session_id'' = Some sid"
      using sid v by (simp add: fix_min_latency_present)
    have sv: "save_to_excel env (s3\<lparr>session_data := ?d4\<rparr>) =
        (Returned, snd (save_to_excel env (s3\<lparr>session_data := ?d4\<rparr>)))"
      using save_to_excel_returns(1)[OF sid4, of env] by (metis prod.collapse)
    have od: "on_data fix_min_latency s3 = (Returned, s3\<lparr>session_data := ?d4\<rparr>)"
      unfolding on_data_def by (subst fm) simp
    show ?thesis
      unfolding es ph3 r3 and_then_simps od snd_conv
      using sv by (metis and_then_simps(1))
  qed
qed

lemma log_session_end_frame:
  "session_data (snd (log_session_end s)) = session_data s"
  "written (snd (log_session_end s)) = written s"
  "turn_metrics (snd (log_session_end s)) = turn_metrics s"
  by (simp_all add: log_session_end_def Let_def emit_def eval_in_def item_def
      split: sum.splits option.splits)

text \<open>What \<^verbatim>\<open>end_session\<close> leaves in the session state of a started session.\<close>

lemma end_session_data:
  fixes s :: metrics_logger
  assumes "running t0 s" "end_session now ov env s = (r, s')"
  shows "k \<notin> (\<lambda>m. ''avg_'' @ m) ` set metrics_to_avg \<Longrightarrow> k \<noteq> ''min_latency'' \<Longrightarrow>
         session_data s' k = closed_data env t0 now ov (session_data s) k"
    and "m \<in> set metrics_to_avg \<Longrightarrow> qualifying m (turn_metrics s) = [] \<Longrightarrow>
         session_data s' (''avg_'' @ m) = closed_data env t0 now ov (session_data s) (''avg_'' @ m)"
    and "r = Returned \<Longrightarrow> m \<in> set metrics_to_avg \<Longrightarrow> qualifying m (turn_metrics s) \<noteq> [] \<Longrightarrow>
         \<exists>a. float_mean env m (qualifying m (turn_metrics s)) = Inr a \<and>
             session_data s' (''avg_'' @ m) = Some (val_of a)"
    and "r = Returned \<Longrightarrow>
         session_data s' ''min_latency'' =
           (case closed_data env t0 now ov (session_data s) ''min_latency'' of
              None \<Rightarrow> None
            | Some v \<Rightarrow> Some (if is_inf v then VNum 0 else v))"
    and "r = Returned \<Longrightarrow> m \<in> set metrics_to_avg \<Longrightarrow>
         list_all (numeric m) (valid_turns (turn_metrics s))"
    and "session_data s' ''min_latency'' \<noteq> closed_data env t0 now ov (session_data s) ''min_latency''
         \<Longrightarrow> session_data s' ''min_latency'' = Some (VNum 0) \<and>
             (\<exists>v. closed_data env t0 now ov (session_data s) ''min_latency'' = Some v \<and> is_inf v)"
proof -
  define s2 where "s2 = s\<lparr>session_data := closed_data env t0 now ov (session_data s)\<rparr>"
  define ph where "ph = (if turn_metrics s \<noteq> [] then calculate_averages env s2 else (Returned, s2))"
  note cases = end_session_running_cases[OF assms(1), where now = now and ov = ov and env = env, folded s2_def, folded ph_def]
  have tm: "turn_metrics s2 = turn_metrics s" and d2: "session_data s2 = closed_data env t0 now ov (session_data s)"
    by (simp_all add: s2_def)
  obtain r3 s3 where ph3: "ph = (r3, s3)" by (cases ph)
  have s'_eq: "s' = snd (end_session now ov env s)" and r_eq: "r = fst (end_session now ov env s)"
    using assms(2) by simp_all
  have ph2: "(if turn_metrics s2 \<noteq> [] then calculate_averages env s2 else (Returned, s2)) = (r3, s3)"
    using ph3 by (simp add: ph_def tm)
  note ap = averaging_phase[OF ph2, unfolded tm d2]
  obtain v where v: "session_data s3 ''min_latency'' = Some v"
      "closed_data env t0 now ov (session_data s) ''min_latency'' = Some v"
    using closed_data_present(1)[OF assms(1), where now = now and ov = ov and env = env] cases(4)[where k = "''min_latency''"]
    by (auto simp add: ph3)
  have final: "session_data s' =
      (if r3 = Returned then snd (fix_min_latency (session_data s3)) else session_data s3)"
    and rr: "r = Returned \<Longrightarrow> r3 = Returned"
  proof -
    show "session_data s' =
      (if r3 = Returned then snd (fix_min_latency (session_data s3)) else session_data s3)"
    proof (cases r3)
      case Returned
      then have "fst ph = Returned" by (simp add: ph3)
      from cases(2)[OF this] have
        "s' = snd (log_session_end (snd (save_to_excel env
             (s3\<lparr>session_data := snd (fix_min_latency (session_data s3))\<rparr>))))"
        unfolding s'_eq by (simp add: ph3)
      moreover obtain sid where "session_data s3 ''session_id'' = Some sid"
        using closed_data_present(3)[OF assms(1), where now = now and ov = ov and env = env] cases(4)[where k = "''session_id''"]
        by (auto simp add: ph3)
      then have "session_data (s3\<lparr>session_data := snd (fix_min_latency (session_data s3))\<rparr>)
          ''session_id'' = Some sid"
        using v(1) by (simp add: fix_min_latency_present)
      ultimately show ?thesis
        using Returned by (simp add: log_session_end_frame save_to_excel_returns(2))
    next
      case (Raised e)
      then have "fst ph = Raised e" by (simp add: ph3)
      from cases(1)[OF this] show ?thesis
        unfolding s'_eq using Raised by (simp add: ph3)
    qed
    show "r3 = Returned" if "r = Returned"
    proof (cases r3)
      case Returned
      then show ?thesis .
    next
      case (Raised e)
      then have "fst ph = Raised e" by (simp add: ph3)
      from cases(1)[OF this] that show ?thesis
        unfolding r_eq using Raised by (simp add: ph3)
    qed
  qed
  have fixed: "snd (fix_min_latency (session_data s3)) =
      (if is_inf v then (session_data s3)(''min_latency'' \<mapsto> VNum 0) else session_data s3)"
    using v(1) by (simp add: fix_min_latency_present)
  show "session_data s' k = closed_data env t0 now ov (session_data s) k"
    if "k \<notin> (\<lambda>m. ''avg_'' @ m) ` set metrics_to_avg" "k \<noteq> ''min_latency''"
  proof -
    have "session_data s3 k = closed_data env t0 now ov (session_data s) k"
      using ap(2)[of k] that(1) by blast
    then show ?thesis using that(2) by (simp add: final fixed)
  qed
  show "session_data s' (''avg_'' @ m) = closed_data env t0 now ov (session_data s) (''avg_'' @ m)"
    if "m \<in> set metrics_to_avg" "qualifying m (turn_metrics s) = []"
  proof -
    have "session_data s3 (''avg_'' @ m) = closed_data env t0 now ov (session_data s) (''avg_'' @ m)"
    proof (rule ccontr)
      assume "session_data s3 (''avg_'' @ m) \<noteq> closed_data env t0 now ov (session_data s) (''avg_'' @ m)"
      from ap(2)[OF this] that(2) show False by auto
    qed
    then show ?thesis by (simp add: final fixed)
  qed
  show "\<exists>a. float_mean env m (qualifying m (turn_metrics s)) = Inr a \<and>
             session_data s' (''avg_'' @ m) = Some (val_of a)"
    if "r = Returned" "m \<in> set metrics_to_avg" "qualifying m (turn_metrics s) \<noteq> []"
    using ap(3)[OF rr[OF that(1)] that(2)] that(3) rr[OF that(1)] by (simp add: final fixed)
  show "session_data s' ''min_latency'' =
           (case closed_data env t0 now ov (session_data s) ''min_latency'' of
              None \<Rightarrow> None
            | Some v \<Rightarrow> Some (if is_inf v then VNum 0 else v))"
    if "r = Returned"
    using rr[OF that] v by (simp add: final fixed)
  show "list_all (numeric m) (valid_turns (turn_metrics s))"
    if "r = Returned" "m \<in> set metrics_to_avg"
    using ap(3)[OF rr[OF that(1)] that(2)] by simp
  show "session_data s' ''min_latency'' = Some (VNum 0) \<and>
             (\<exists>v. closed_data env t0 now ov (session_data s) ''min_latency'' = Some v \<and> is_inf v)"
    if "session_data s' ''min_latency'' \<noteq> closed_data env t0 now ov (session_data s) ''min_latency''"
    using that v by (auto simp add: final fixed split: if_splits)
qed

lemma closed_data_lookup:
  "closed_data env t0 now ov d k =
     (case overlay_at ov k of
        Some v \<Rightarrow> Some v
      | None \<Rightarrow> (d(''end_time'' \<mapsto> VTime now, ''duration'' \<mapsto> VNum (total_seconds env (instant now - instant t0)))) k)"
  by (simp add: closed_data_def merge_summary_lookup overlay_at_def split: option.splits)

lemma started_initial:
  "k \<notin> set tracked_keys \<Longrightarrow> session_data (started t0 calls s0) k = initial_data t0 k"
  using started_running(1)[of t0 calls s0] by (simp add: running_def)

lemma started_qualifying:
  "m \<in> set metrics_to_avg \<Longrightarrow>
   qualifying m (turn_metrics (started t0 calls s0)) = qualifying m (map snd calls)"
  unfolding started_running(2)
  by (rule qualifying_stamped) (auto simp add: metrics_to_avg_def)

lemma started_positives:
  "positives ''total_latency'' (turn_metrics (started t0 calls s0)) =
   positives ''total_latency'' (map snd calls)"
  unfolding started_running(2)
  by (rule positives_stamped) simp_all

lemma filter_e_gt_numeric:
  "map num_of vs = map Some xs \<Longrightarrow>
   \<exists>qs. filter_e (\<lambda>l. py_gt l (VNum c)) vs = Inr qs \<and>
        length qs = length (filter (\<lambda>x. Fin c < x) xs)"
proof (induction vs arbitrary: xs)
  case Nil
  then show ?case by simp
next
  case (Cons v vs)
  then obtain x xs' where xs: "xs = x # xs'" "num_of v = Some x" "map num_of vs = map Some xs'"
    by (cases xs) auto
  from Cons.IH[OF xs(3)] obtain qs where
    "filter_e (\<lambda>l. py_gt l (VNum c)) vs = Inr qs" "length qs = length (filter (\<lambda>x. Fin c < x) xs')"
    by blast
  then show ?case using xs by simp
qed

lemma filter_e_lt_numeric:
  "map num_of vs = map Some xs \<Longrightarrow>
   \<exists>qs. filter_e (\<lambda>l. py_lt l (VNum c)) vs = Inr qs \<and>
        length qs = length (filter (\<lambda>x. x < Fin c) xs)"
proof (induction vs arbitrary: xs)
  case Nil
  then show ?case by simp
next
  case (Cons v vs)
  then obtain x xs' where xs: "xs = x # xs'" "num_of v = Some x" "map num_of vs = map Some xs'"
    by (cases xs) auto
  from Cons.IH[OF xs(3)] obtain qs where
    "filter_e (\<lambda>l. py_lt l (VNum c)) vs = Inr qs" "length qs = length (filter (\<lambda>x. x < Fin c) xs')"
    by blast
  then show ?case using xs by simp
qed

lemma count_where_gt:
  assumes "map num_of vs = map Some xs"
  shows "count_where (\<lambda>l. py_gt l (VNum c)) vs =
         Inr (VNum (real (length (filter (\<lambda>x. Fin c < x) xs))))"
proof -
  from filter_e_gt_numeric[OF assms, of c] obtain qs where
    "filter_e (\<lambda>l. py_gt l (VNum c)) vs = Inr qs" "length qs = length (filter (\<lambda>x. Fin c < x) xs)"
    by blast
  then show ?thesis by (simp add: count_where_def py_len_def)
qed

lemma count_where_lt:
  assumes "map num_of vs = map Some xs"
  shows "count_where (\<lambda>l. py_lt l (VNum c)) vs =
         Inr (VNum (real (length (filter (\<lambda>x. x < Fin c) xs))))"
proof -
  from filter_e_lt_numeric[OF assms, of c] obtain qs where
    "filter_e (\<lambda>l. py_lt l (VNum c)) vs = Inr qs" "length qs = length (filter (\<lambda>x. x < Fin c) xs)"
    by blast
  then show ?thesis by (simp add: count_where_def py_len_def)
qed

lemma threshold_rows_numeric:
  assumes "map num_of vs = map Some xs"
  shows "\<exists>a b c. threshold_rows vs = Inr [a, b, c] \<and>
     tallies ''Turns > 2s latency'' (length (filter (\<lambda>x. Fin 2 < x) xs)) a \<and>
     tallies ''Turns > 1s latency'' (length (filter (\<lambda>x. Fin 1 < x) xs)) b \<and>
     tallies ''Turns < 0.5s latency'' (length (filter (\<lambda>x. x < Fin (1/2)) xs)) c"
  by (simp add: threshold_rows_def count_where_gt[OF assms] count_where_lt[OF assms]
      tallies_def count_row_def)

lemma latency_row_numeric:
  assumes "map num_of vs = map Some xs" "xs \<noteq> []"
    and "float_mean env ''total_latency'' xs = Inr a"
  shows "\<exists>row. latency_row env vs = Inr row \<and>
           summarises env ''total_latency'' ''Total Latency'' xs row"
proof -
  from py_min_numeric[OF assms(1,2)] obtain mn where
    mn: "py_min vs = Inr mn" "num_of mn = Some (Min (set xs))"
    by blast
  from py_max_numeric[OF assms(1,2)] obtain mx where
    mx: "py_max vs = Inr mx" "num_of mx = Some (Max (set xs))"
    by blast
  have len: "length vs = length xs" using assms(1) by (metis length_map)
  show ?thesis
    using mn mx assms(2) len
    by (simp add: latency_row_def sum_div_len_numeric[OF assms(1,2)] assms(3) summarises_def
        stat_row_def py_len_def num_at_def)
qed

lemma guarded_row_numeric:
  assumes "map num_of vs = map Some xs"
    and "xs \<noteq> [] \<Longrightarrow> \<exists>a. float_mean env metric xs = Inr a"
  shows "\<exists>row. guarded_row env metric name vs = Inr row \<and> summarises env metric name xs row"
proof (cases "xs = []")
  case True
  then have "vs = []" using assms(1) by simp
  then show ?thesis using True
    by (simp add: guarded_row_def summarises_def stat_row_def py_len_def)
next
  case False
  then have ne: "vs \<noteq> []" using assms(1) by auto
  from assms(2)[OF False] obtain a where a: "float_mean env metric xs = Inr a" by blast
  from py_min_numeric[OF assms(1) False] obtain mn where
    mn: "py_min vs = Inr mn" "num_of mn = Some (Min (set xs))" by blast
  from py_max_numeric[OF assms(1) False] obtain mx where
    mx: "py_max vs = Inr mx" "num_of mx = Some (Max (set xs))" by blast
  have len: "length vs = length xs" using assms(1) by (metis length_map)
  show ?thesis
    using mn mx False ne len
    by (simp add: guarded_row_def sum_div_len_numeric[OF assms(1) False] a summarises_def
        stat_row_def py_len_def num_at_def)
qed

lemma positive_values_numeric:
  assumes "list_all (numeric metric) valid"
  shows "\<exists>vs. positive_values metric valid = Inr vs \<and>
     map num_of vs = map Some (positives metric valid)"
  unfolding positive_values_closed using assms num_of_positive_values[of metric valid] by auto

lemma create_latency_analysis_sheet_numeric:
  assumes "\<forall>m\<in>set metrics_to_avg. list_all (numeric m) (valid_turns ts)"
    and "\<forall>m\<in>set metrics_to_avg. qualifying m ts \<noteq> [] \<longrightarrow>
           (\<exists>a. float_mean env m (qualifying m ts) = Inr a)"
  shows "if valid_turns ts = [] then create_latency_analysis_sheet env ts = Inr None
         else \<exists>rows. create_latency_analysis_sheet env ts = Inr (Some rows) \<and>
                list_all2 (\<lambda>p row. p row) (analysis_rows env ts) rows"
proof (cases "valid_turns ts = []")
  case True
  then show ?thesis by (simp add: create_latency_analysis_sheet_def Let_def)
next
  case False
  then have ts: "ts \<noteq> []" by (auto simp add: valid_turns_def)
  let ?valid = "valid_turns ts"
  have num: "list_all (numeric ''total_latency'') ?valid" "list_all (numeric ''eou_delay'') ?valid"
    "list_all (numeric ''ttft'') ?valid" "list_all (numeric ''ttfb'') ?valid"
    using assms(1) by (simp_all add: metrics_to_avg_def)
  have fm: "qualifying ''total_latency'' ts \<noteq> [] \<Longrightarrow>
        \<exists>a. float_mean env ''total_latency'' (qualifying ''total_latency'' ts) = Inr a"
    "qualifying ''eou_delay'' ts \<noteq> [] \<Longrightarrow>
        \<exists>a. float_mean env ''eou_delay'' (qualifying ''eou_delay'' ts) = Inr a"
    "qualifying ''ttft'' ts \<noteq> [] \<Longrightarrow>
        \<exists>a. float_mean env ''ttft'' (qualifying ''ttft'' ts) = Inr a"
    "qualifying ''ttfb'' ts \<noteq> [] \<Longrightarrow>
        \<exists>a. float_mean env ''ttfb'' (qualifying ''ttfb'' ts) = Inr a"
    using assms(2) by (simp_all add: metrics_to_avg_def)
  from positive_values_numeric[OF num(1)] obtain vL where
    vL: "positive_values ''total_latency'' ?valid = Inr vL"
        "map num_of vL = map Some (qualifying ''total_latency'' ts)"
    by (auto simp add: qualifying_valid)
  from positive_values_numeric[OF num(2)] obtain vE where
    vE: "positive_values ''eou_delay'' ?valid = Inr vE"
        "map num_of vE = map Some (qualifying ''eou_delay'' ts)"
    by (auto simp add: qualifying_valid)
  from positive_values_numeric[OF num(3)] obtain vT where
    vT: "positive_values ''ttft'' ?valid = Inr vT"
        "map num_of vT = map Some (qualifying ''ttft'' ts)"
    by (auto simp add: qualifying_valid)
  from positive_values_numeric[OF num(4)] obtain vB where
    vB: "positive_values ''ttfb'' ?valid = Inr vB"
        "map num_of vB = map Some (qualifying ''ttfb'' ts)"
    by (auto simp add: qualifying_valid)
  from threshold_rows_numeric[OF vL(2)] obtain a b c where
    th: "threshold_rows vL = Inr [a, b, c]"
      "tallies ''Turns > 2s latency''
         (length (filter (\<lambda>x. Fin 2 < x) (qualifying ''total_latency'' ts))) a"
      "tallies ''Turns > 1s latency''
         (length (filter (\<lambda>x. Fin 1 < x) (qualifying ''total_latency'' ts))) b"
      "tallies ''Turns < 0.5s latency''
         (length (filter (\<lambda>x. x < Fin (1/2)) (qualifying ''total_latency'' ts))) c"
    by blast
  have start: "create_latency_analysis_sheet env ts =
     bind_e
       (if vL \<noteq> []
        then bind_e (latency_row env vL) (\<lambda>r1.
             bind_e (guarded_row env ''eou_delay'' ''EOU Delay'' vE) (\<lambda>r2.
             bind_e (guarded_row env ''ttft'' ''TTFT'' vT) (\<lambda>r3.
             bind_e (guarded_row env ''ttfb'' ''TTFB'' vB) (\<lambda>r4. Inr [r1, r2, r3, r4]))))
        else Inr [])
       (\<lambda>stats. Inr (Some (stats @ [a, b, c])))"
    using False ts by (simp add: create_latency_analysis_sheet_def Let_def vL(1) vE(1) vT(1) vB(1) th(1))
  show ?thesis
  proof (cases "qualifying ''total_latency'' ts = []")
    case True
    then have "vL = []" using vL(2) by simp
    then have "create_latency_analysis_sheet env ts = Inr (Some [a, b, c])"
      by (simp add: start)
    then show ?thesis
      using False True th(2-4) by (simp add: analysis_rows_def)
  next
    case ne: False
    then have vne: "vL \<noteq> []" using vL(2) by auto
    from fm(1)[OF ne] obtain aL where
      aL: "float_mean env ''total_latency'' (qualifying ''total_latency'' ts) = Inr aL" by blast
    from latency_row_numeric[OF vL(2) ne aL] obtain r1 where
      r1: "latency_row env vL = Inr r1"
          "summarises env ''total_latency'' ''Total Latency'' (qualifying ''total_latency'' ts) r1"
      by blast
    from guarded_row_numeric[OF vE(2) fm(2), where name = "''EOU Delay''"] obtain r2 where
      r2: "guarded_row env ''eou_delay'' ''EOU Delay'' vE = Inr r2"
          "summarises env ''eou_delay'' ''EOU Delay'' (qualifying ''eou_delay'' ts) r2" by blast
    from guarded_row_numeric[OF vT(2) fm(3), where name = "''TTFT''"] obtain r3 where
      r3: "guarded_row env ''ttft'' ''TTFT'' vT = Inr r3"
          "summarises env ''ttft'' ''TTFT'' (qualifying ''ttft'' ts) r3" by blast
    from guarded_row_numeric[OF vB(2) fm(4), where name = "''TTFB''"] obtain r4 where
      r4: "guarded_row env ''ttfb'' ''TTFB'' vB = Inr r4"
          "summarises env ''ttfb'' ''TTFB'' (qualifying ''ttfb'' ts) r4" by blast
    have "create_latency_analysis_sheet env ts = Inr (Some [r1, r2, r3, r4, a, b, c])"
      using vne by (simp add: start r1(1) r2(1) r3(1) r4(1))
    then show ?thesis
      using False ne th(2-4) r1(2) r2(2) r3(2) r4(2) by (simp add: analysis_rows_def)
  qed
qed

lemma numeric_stamped:
  "metric \<noteq> ''timestamp'' \<Longrightarrow> metric \<noteq> ''session_id'' \<Longrightarrow>
   numeric metric (stamped now sid m) = numeric metric m"
  by (simp add: numeric_def stamped_def)

lemma closed_data_session_id:
  assumes "running t0 s"
  shows "closed_data env t0 now ov (session_data s) ''session_id'' = Some (export_id t0 ov)"
  by (simp add: closed_data_lookup export_id_def running_session_id[OF assms] split: option.splits)

lemma closed_data_duration:
  "closed_data env t0 now ov d ''duration'' =
     Some (case overlay_at ov ''duration'' of Some v \<Rightarrow> v | None \<Rightarrow> VNum (total_seconds env (instant now - instant t0)))"
  by (simp add: closed_data_lookup split: option.splits)

text \<open>When the averaging phase returns, \<^verbatim>\<open>end_session\<close> is the export followed by the
  closing log lines.\<close>

lemma end_session_export:
  fixes s :: metrics_logger
  assumes "running t0 s" "end_session now ov env s = (r, s')"
    and "fst (if turn_metrics s \<noteq> []
              then calculate_averages env
                     (s\<lparr>session_data := closed_data env t0 now ov (session_data s)\<rparr>)
              else (Returned, s\<lparr>session_data := closed_data env t0 now ov (session_data s)\<rparr>))
         = Returned"
  defines "s4 \<equiv> s\<lparr>session_data := session_data s'\<rparr>"
  shows "(r, s') = log_session_end (snd (save_to_excel env s4))"
    and "session_data s4 ''session_id'' = Some (export_id t0 ov)"
    and "session_data s4 ''duration'' =
      Some (case overlay_at ov ''duration'' of Some v \<Rightarrow> v | None \<Rightarrow> VNum (total_seconds env (instant now - instant t0)))"
    and "\<exists>n. session_data s4 ''total_turns'' = Some n"
    and "\<forall>m\<in>set metrics_to_avg. list_all (numeric m) (valid_turns (turn_metrics s))"
    and "\<forall>m\<in>set metrics_to_avg. qualifying m (turn_metrics s) \<noteq> [] \<longrightarrow>
           (\<exists>a. float_mean env m (qualifying m (turn_metrics s)) = Inr a)"
    and "session_data s' =
           snd (fix_min_latency (session_data (snd
             (if turn_metrics s \<noteq> []
              then calculate_averages env
                     (s\<lparr>session_data := closed_data env t0 now ov (session_data s)\<rparr>)
              else (Returned, s\<lparr>session_data := closed_data env t0 now ov (session_data s)\<rparr>)))))"
proof -
  define s2 where "s2 = s\<lparr>session_data := closed_data env t0 now ov (session_data s)\<rparr>"
  define ph where "ph = (if turn_metrics s \<noteq> [] then calculate_averages env s2 else (Returned, s2))"
  note cases = end_session_running_cases[OF assms(1), where now = now and ov = ov and env = env,
      folded s2_def, folded ph_def]
  have tm: "turn_metrics s2 = turn_metrics s" by (simp add: s2_def)
  have ret: "fst ph = Returned" unfolding ph_def s2_def by (rule assms(3))
  obtain s3 where ph3: "ph = (Returned, s3)" using ret by (cases ph) simp
  have ph2: "(if turn_metrics s2 \<noteq> [] then calculate_averages env s2 else (Returned, s2)) =
      (Returned, s3)"
    using ph3 by (simp add: ph_def tm)
  note ap = averaging_phase(3)[OF ph2 refl, unfolded tm]
  show "\<forall>m\<in>set metrics_to_avg. list_all (numeric m) (valid_turns (turn_metrics s))"
    using ap by blast
  show "\<forall>m\<in>set metrics_to_avg. qualifying m (turn_metrics s) \<noteq> [] \<longrightarrow>
           (\<exists>a. float_mean env m (qualifying m (turn_metrics s)) = Inr a)"
  proof (intro ballI impI)
    fix m assume "m \<in> set metrics_to_avg" "qualifying m (turn_metrics s) \<noteq> []"
    then show "\<exists>a. float_mean env m (qualifying m (turn_metrics s)) = Inr a"
      using ap[of m] by auto
  qed
  let ?s4 = "(snd ph)\<lparr>session_data := snd (fix_min_latency (session_data (snd ph)))\<rparr>"
  have e: "end_session now ov env s = log_session_end (snd (save_to_excel env ?s4))"
    by (rule cases(2)[OF ret])
  note d = end_session_data(1)[OF assms(1) assms(2)]
  have sid: "session_data s' ''session_id'' = Some (export_id t0 ov)"
    using d[of "''session_id''"] closed_data_session_id[OF assms(1), where now = now and ov = ov and env = env]
    by (auto simp add: metrics_to_avg_def)
  have dur: "session_data s' ''duration'' =
      Some (case overlay_at ov ''duration'' of Some v \<Rightarrow> v | None \<Rightarrow> VNum (total_seconds env (instant now - instant t0)))"
    using d[of "''duration''"] closed_data_duration[where ?t0.0 = t0 and now = now and ov = ov and env = env and d = "session_data s"]
    by (auto simp add: metrics_to_avg_def)
  have tot: "\<exists>n. session_data s' ''total_turns'' = Some n"
    using d[of "''total_turns''"] closed_data_present(2)[OF assms(1), where now = now and ov = ov and env = env]
    by (auto simp add: metrics_to_avg_def)
  have sd: "session_data s' = snd (fix_min_latency (session_data (snd ph)))"
  proof -
    obtain v where "session_data (snd ph) ''session_id'' = Some v"
      using cases(4)[where k = "''session_id''"] closed_data_present(3)[OF assms(1), where now = now and ov = ov and env = env]
      by auto
    moreover obtain w where "session_data (snd ph) ''min_latency'' = Some w"
      using cases(4)[where k = "''min_latency''"] closed_data_present(1)[OF assms(1), where now = now and ov = ov and env = env]
      by auto
    ultimately have "session_data ?s4 ''session_id'' = Some v"
      by (simp add: fix_min_latency_present)
    then have "session_data (snd (save_to_excel env ?s4)) = session_data ?s4"
      by (rule save_to_excel_returns(2))
    then have "session_data (snd (end_session now ov env s)) = session_data ?s4"
      unfolding e by (simp add: log_session_end_frame)
    then show ?thesis using assms(2) by simp
  qed
  have "?s4 = s4"
    unfolding s4_def sd using cases(3) by (metis (no_types) s2_def metrics_logger.surjective
        metrics_logger.update_convs(2))
  then show "(r, s') = log_session_end (snd (save_to_excel env s4))"
    using e assms(2) by simp
  show "session_data s4 ''session_id'' = Some (export_id t0 ov)"
    using sid by (simp add: s4_def)
  show "session_data s4 ''duration'' =
      Some (case overlay_at ov ''duration'' of Some v \<Rightarrow> v | None \<Rightarrow> VNum (total_seconds env (instant now - instant t0)))"
    using dur by (simp add: s4_def)
  show "\<exists>n. session_data s4 ''total_turns'' = Some n"
    using tot by (simp add: s4_def)
  show "session_data s' =
           snd (fix_min_latency (session_data (snd
             (if turn_metrics s \<noteq> []
              then calculate_averages env
                     (s\<lparr>session_data := closed_data env t0 now ov (session_data s)\<rparr>)
              else (Returned, s\<lparr>session_data := closed_data env t0 now ov (session_data s)\<rparr>)))))"
    using sd unfolding ph_def s2_def .
qed


text \<open>A call of \<^verbatim>\<open>end_session\<close> that returns has passed the averaging.\<close>

lemma end_session_returned_phase:
  fixes s :: metrics_logger
  assumes "running t0 s" "end_session now ov env s = (Returned, s')"
  shows "fst (if turn_metrics s \<noteq> []
              then calculate_averages env
                     (s\<lparr>session_data := closed_data env t0 now ov (session_data s)\<rparr>)
              else (Returned, s\<lparr>session_data := closed_data env t0 now ov (session_data s)\<rparr>))
         = Returned"
proof -
  define s2 where "s2 = s\<lparr>session_data := closed_data env t0 now ov (session_data s)\<rparr>"
  define ph where "ph = (if turn_metrics s \<noteq> [] then calculate_averages env s2 else (Returned, s2))"
  note cases = end_session_running_cases[OF assms(1), where now = now and ov = ov and env = env,
      folded s2_def, folded ph_def]
  have "fst ph = Returned"
  proof (cases "fst ph")
    case Returned
    then show ?thesis .
  next
    case (Raised e)
    from cases(1)[OF this] assms(2) Raised show ?thesis by (metis fst_conv)
  qed
  then show ?thesis unfolding ph_def s2_def .
qed

lemma map_of_latency_analysis:
  "map_of (workbook_sheets s a) ''Latency_Analysis'' = a"
  by (cases a) (simp_all add: workbook_sheets_def)

lemma valid_stamped:
  "(valid_turns (map (stamp_call t0) calls) = []) =
   (filter (\<lambda>c. \<not> flagged_interrupted (snd c)) calls = [])"
  using filter_flagged_stamped(2)[of t0 calls] unfolding valid_turns_eq
  by (metis length_0_conv)

lemma analysis_rows_stamped:
  "analysis_rows env (map (stamp_call t0) calls) = analysis_rows env (map snd calls)"
  by (simp add: analysis_rows_def qualifying_stamped)

text \<open>The closing log lines read the session state only.\<close>

lemma log_session_end_outcome:
  "session_data a = session_data b \<Longrightarrow> fst (log_session_end a) = fst (log_session_end b)"
  by (simp add: log_session_end_def Let_def emit_def eval_in_def item_def
      split: sum.splits option.splits)

lemma log_session_end_returned:
  "fst (log_session_end s) = Returned \<Longrightarrow>
   log_session_end s = (Returned, emit INFO ''Duration, Turns'' (emit INFO ''Session ended'' s))"
  by (auto simp add: log_session_end_def Let_def emit_def eval_in_def item_def
      split: sum.splits option.splits)

section \<open>Properties of the recorder\<close>

text \<open>
  C1. After \<^verbatim>\<open>start_session\<close> and any sequence of \<^verbatim>\<open>add_turn_metrics\<close> calls (with any
  dictionaries, interrupted or not, whether a call returned or raised), the running
  aggregates are what the submitted history says: as soon as one strictly positive
  \<^verbatim>\<open>total_latency\<close> was submitted, \<^verbatim>\<open>max_latency\<close> is the maximum and \<^verbatim>\<open>min_latency\<close>
  the minimum of the strictly positive values submitted so far, and
  \<^verbatim>\<open>high_latency_turns\<close> is the number of those values above 2.0.
\<close>

theorem running_aggregates_track_history:
  "(positives ''total_latency'' (map snd calls) \<noteq> [] \<longrightarrow>
      num_at (session_data (started t0 calls s0)) ''max_latency'' =
        Some (Max (set (positives ''total_latency'' (map snd calls)))) \<and>
      num_at (session_data (started t0 calls s0)) ''min_latency'' =
        Some (Min (set (positives ''total_latency'' (map snd calls))))) \<and>
   session_data (started t0 calls s0) ''high_latency_turns'' =
     Some (VNum (real (length (filter (\<lambda>x. Fin 2 < x)
       (positives ''total_latency'' (map snd calls))))))"
proof -
  let ?L = "positives ''total_latency'' (map snd calls)"
  have L: "positives ''total_latency'' (map (stamp_call t0) calls) = ?L"
    by (rule positives_stamped) simp_all
  note c = started_counts[of t0 calls s0, unfolded counts_def L]
  have pos: "\<forall>x\<in>set ?L. Fin 0 < x" using positives_positive by blast
  have mx: "?L \<noteq> [] \<Longrightarrow> Max (set (Fin 0 # ?L)) = Max (set ?L)"
    by (rule Max_with_floor[OF _ pos])
  have mn: "?L \<noteq> [] \<Longrightarrow> Min (set (PInf # ?L)) = Min (set ?L)"
    by (rule Min_with_ceiling)
  show ?thesis using c mx mn by metis
qed

text \<open>The scenario of total latencies 0.5, 1.5, 2.5: maximum 2.5, minimum 0.5, one turn
  above the threshold.\<close>

lemma positives_three_turns:
  "positives ''total_latency'' (map snd three_turns) = [Fin (1/2), Fin (3/2), Fin (5/2)]"
  by (simp add: three_turns_def plain_turn_def positives_def measured_def)

theorem running_aggregates_track_history_witness:
  "num_at (session_data (started clock0 three_turns (new_logger ''metrics''))) ''max_latency'' =
     Some (Fin (5/2)) \<and>
   num_at (session_data (started clock0 three_turns (new_logger ''metrics''))) ''min_latency'' =
     Some (Fin (1/2)) \<and>
   session_data (started clock0 three_turns (new_logger ''metrics'')) ''high_latency_turns'' =
     Some (VNum 1)"
  using running_aggregates_track_history[of three_turns clock0 "new_logger ''metrics''"]
  by (simp add: positives_three_turns max_def min_def)

text \<open>
  C4. After \<^verbatim>\<open>start_session\<close> and any number of \<^verbatim>\<open>add_turn_metrics\<close> calls,
  \<^verbatim>\<open>total_turns\<close> is the number of calls, \<^verbatim>\<open>interrupted_turns\<close> the number of calls whose
  record is flagged interrupted and \<^verbatim>\<open>successful_turns\<close> the number of the others, so
  the two add up to \<^verbatim>\<open>total_turns\<close>; one more call adds one to \<^verbatim>\<open>total_turns\<close> and one
  to exactly one of the two other counters, chosen by the record's flag.
\<close>

theorem counters_partition_turns:
  "session_data (started t0 calls s0) ''total_turns'' = Some (VNum (real (length calls))) \<and>
   session_data (started t0 calls s0) ''interrupted_turns'' =
     Some (VNum (real (length (filter (\<lambda>c. flagged_interrupted (snd c)) calls)))) \<and>
   session_data (started t0 calls s0) ''successful_turns'' =
     Some (VNum (real (length (filter (\<lambda>c. \<not> flagged_interrupted (snd c)) calls)))) \<and>
   real (length (filter (\<lambda>c. \<not> flagged_interrupted (snd c)) calls)) +
     real (length (filter (\<lambda>c. flagged_interrupted (snd c)) calls)) = real (length calls) \<and>
   started t0 (calls @ [c]) s0 = snd (add_turn_metrics (fst c) (snd c) (started t0 calls s0)) \<and>
   session_data (started t0 (calls @ [c]) s0) ''total_turns'' =
     Some (VNum (real (length calls) + 1)) \<and>
   session_data (started t0 (calls @ [c]) s0) ''interrupted_turns'' =
     Some (VNum (real (length (filter (\<lambda>c. flagged_interrupted (snd c)) calls)) +
       (if flagged_interrupted (snd c) then 1 else 0))) \<and>
   session_data (started t0 (calls @ [c]) s0) ''successful_turns'' =
     Some (VNum (real (length (filter (\<lambda>c. \<not> flagged_interrupted (snd c)) calls)) +
       (if flagged_interrupted (snd c) then 0 else 1)))"
proof -
  have now: "session_data (started t0 cs s0) ''total_turns'' = Some (VNum (real (length cs))) \<and>
   session_data (started t0 cs s0) ''interrupted_turns'' =
     Some (VNum (real (length (filter (\<lambda>c. flagged_interrupted (snd c)) cs)))) \<and>
   session_data (started t0 cs s0) ''successful_turns'' =
     Some (VNum (real (length (filter (\<lambda>c. \<not> flagged_interrupted (snd c)) cs))))"
    for cs
    using started_counts[of t0 cs s0, unfolded counts_def filter_flagged_stamped length_map]
    by blast
  have part: "real (length (filter (\<lambda>c. \<not> flagged_interrupted (snd c)) calls)) +
     real (length (filter (\<lambda>c. flagged_interrupted (snd c)) calls)) = real (length calls)"
    using sum_length_filter_compl[of "\<lambda>c. flagged_interrupted (snd c)" calls] by linarith
  have step: "started t0 (calls @ [c]) s0 = snd (add_turn_metrics (fst c) (snd c) (started t0 calls s0))"
    by (simp add: started_def add_turns_snoc)
  show ?thesis
    using now[of calls] now[of "calls @ [c]"] part step by simp
qed

text \<open>
  C5. \<^verbatim>\<open>add_turn_metrics\<close> on a recorder whose session was never started returns without
  an exception and changes nothing but the log, to which it adds one warning: the turn
  sequence, the session state and the written files are as before.
\<close>

theorem add_turn_before_start_is_noop:
  "session_start_time s = None \<Longrightarrow>
   add_turn_metrics now metrics s =
     (Returned,
      s\<lparr>logged := logged s @ [(WARNING, ''Session not started. Call start_session() first.'')]\<rparr>)"
  by (simp add: add_turn_metrics_def emit_def)

theorem add_turn_before_start_is_noop_witness:
  "session_start_time (new_logger ''metrics'') = None \<and>
   add_turn_metrics clock0 (snd (plain_turn 1)) (new_logger ''metrics'') =
     (Returned,
      (new_logger ''metrics'')\<lparr>logged :=
         [(WARNING, ''Session not started. Call start_session() first.'')]\<rparr>)"
  using add_turn_before_start_is_noop[of "new_logger ''metrics''" clock0 "snd (plain_turn 1)"]
  by (simp add: new_logger_def)

text \<open>
  C10. \<^verbatim>\<open>start_session\<close> on a recorder with a session in progress, whatever was admitted,
  returns with a fresh session state (session id and start time from the new clock
  reading, every counter and \<^verbatim>\<open>max_latency\<close> at 0, \<^verbatim>\<open>min_latency\<close> at infinity) and an
  empty turn sequence; it writes no file, and its result does not depend on the
  session it replaces.
\<close>

theorem restart_discards_session:
  "fst (start_session now (started t0 calls s0)) = Returned \<and>
   session_start_time (snd (start_session now (started t0 calls s0))) = Some now \<and>
   session_data (snd (start_session now (started t0 calls s0))) = initial_data now \<and>
   session_data (snd (start_session now (started t0 calls s0))) ''session_id'' =
     Some (VStr (ymd_hms now)) \<and>
   session_data (snd (start_session now (started t0 calls s0))) ''start_time'' =
     Some (VTime now) \<and>
   map (session_data (snd (start_session now (started t0 calls s0))))
     [''total_turns'', ''successful_turns'', ''interrupted_turns'', ''max_latency'',
      ''high_latency_turns'', ''min_latency''] =
     [Some (VNum 0), Some (VNum 0), Some (VNum 0), Some (VNum 0), Some (VNum 0), Some VInf] \<and>
   turn_metrics (snd (start_session now (started t0 calls s0))) = [] \<and>
   written (snd (start_session now (started t0 calls s0))) = written s0 \<and>
   start_session now (started t0 calls s0) = start_session now ((started t0 calls s0)\<lparr>turn_metrics := [], session_data := Map.empty, session_start_time := None\<rparr>)"
  by (simp add: start_session_def emit_def initial_data_def started_running(3))

text \<open>
  C2 (as the code has it). When \<^verbatim>\<open>end_session\<close> returns on a started session, then for
  each of the four metrics: if some admitted turn that is not flagged interrupted has
  the metric present and strictly positive, \<^verbatim>\<open>avg_<metric>\<close> is the mean of those
  values as the interpreter computes it, its sum of the values in the order of
  admission divided by their number (also over an overlay entry of that name): the
  arithmetic mean where no rounding occurs, its floating-point result otherwise.
  If no value qualifies, the entry is left as it was after the overlay was merged, which
  is the overlay's value when the overlay has the key and, for \<^verbatim>\<open>eou_delay\<close>, \<^verbatim>\<open>ttft\<close>
  and \<^verbatim>\<open>ttfb\<close>, the 0 of \<^verbatim>\<open>start_session\<close> when it has not.
\<close>

theorem averages_after_end:
  assumes "end_session now ov env (started t0 calls s0) = (Returned, s')"
    and "metric \<in> set metrics_to_avg"
  shows "if qualifying metric (map snd calls) \<noteq> []
         then (case float_mean env metric (qualifying metric (map snd calls)) of
                 Inr a \<Rightarrow> session_data s' (''avg_'' @ metric) = Some (val_of a)
               | Inl e \<Rightarrow> False) \<and>
              (exact_on env metric (qualifying metric (map snd calls)) \<longrightarrow>
                 session_data s' (''avg_'' @ metric) =
                   Some (val_of (mean (qualifying metric (map snd calls)))))
         else (case overlay_at ov (''avg_'' @ metric) of
                 Some v \<Rightarrow> session_data s' (''avg_'' @ metric) = Some v
               | None \<Rightarrow> metric \<noteq> ''total_latency'' \<longrightarrow>
                          session_data s' (''avg_'' @ metric) = Some (VNum 0))"
proof -
  note run = started_running(1)[of t0 calls s0]
  note q = started_qualifying[OF assms(2), of t0 calls s0]
  note d = end_session_data[OF run assms(1)]
  show ?thesis
  proof (cases "qualifying metric (map snd calls) = []")
    case False
    then have "qualifying metric (turn_metrics (started t0 calls s0)) \<noteq> []" by (simp add: q)
    from d(3)[OF refl assms(2) this] obtain a where
      "float_mean env metric (qualifying metric (map snd calls)) = Inr a"
      "session_data s' (''avg_'' @ metric) = Some (val_of a)"
      unfolding q by blast
    then show ?thesis using False by (auto simp add: float_mean_exact)
  next
    case True
    have keep: "session_data s' (''avg_'' @ metric) =
       closed_data env t0 now ov (session_data (started t0 calls s0)) (''avg_'' @ metric)"
      using d(2)[OF assms(2)] True by (simp add: q)
    have init: "metric \<noteq> ''total_latency'' \<Longrightarrow>
        session_data (started t0 calls s0) (''avg_'' @ metric) = Some (VNum 0)"
      using assms(2)
      by (auto simp add: started_initial tracked_keys_def metrics_to_avg_def initial_data_def)
    show ?thesis
      using True init unfolding keep closed_data_lookup
      by (auto split: option.splits)
  qed
qed

text \<open>
  C3 (as the code has it). For a started session and an overlay passed to
  \<^verbatim>\<open>end_session\<close>, the final session state maps every key of the overlay to the overlay's
  value (whether the call returns or raises later on), with two exceptions that come
  after the merge: an \<^verbatim>\<open>avg_<metric>\<close> key whose metric has a qualifying value is
  recomputed, and a \<^verbatim>\<open>min_latency\<close> equal to \<^verbatim>\<open>float('inf')\<close> is normalised to 0.
\<close>

theorem overlay_entries_after_end:
  assumes "ov k = Some v"
    and "\<not> (k = ''min_latency'' \<and> is_inf v)"
    and "\<forall>m\<in>set metrics_to_avg. k = ''avg_'' @ m \<longrightarrow> qualifying m (map snd calls) = []"
  shows "session_data (snd (end_session now (Some ov) env (started t0 calls s0))) k = Some v"
proof -
  obtain r s' where e: "end_session now (Some ov) env (started t0 calls s0) = (r, s')"
    by (cases "end_session now (Some ov) env (started t0 calls s0)")
  note run = started_running(1)[of t0 calls s0]
  note d = end_session_data[OF run e]
  have c: "closed_data env t0 now (Some ov) (session_data (started t0 calls s0)) k = Some v"
    using assms(1) by (simp add: closed_data_lookup overlay_at_def)
  have "session_data s' k = Some v"
  proof (cases "k \<in> (\<lambda>m. ''avg_'' @ m) ` set metrics_to_avg")
    case True
    then obtain m where m: "m \<in> set metrics_to_avg" "k = ''avg_'' @ m" by blast
    then have "qualifying m (turn_metrics (started t0 calls s0)) = []"
      using assms(3) by (simp add: started_qualifying)
    from d(2)[OF m(1) this] show ?thesis using c m(2) by simp
  next
    case False
    show ?thesis
    proof (cases "k = ''min_latency''")
      case False
      with d(1)[OF \<open>k \<notin> (\<lambda>m. ''avg_'' @ m) ` set metrics_to_avg\<close>] c show ?thesis by simp
    next
      case True
      show ?thesis
      proof (rule ccontr)
        assume "session_data s' k \<noteq> Some v"
        then have "session_data s' ''min_latency'' \<noteq>
            closed_data env t0 now (Some ov) (session_data (started t0 calls s0)) ''min_latency''"
          using c True by simp
        from d(6)[OF this] c True assms(2) show False by simp
      qed
    qed
  qed
  then show ?thesis by (simp add: e)
qed

text \<open>
  C6 (as the code has it). When \<^verbatim>\<open>end_session\<close> returns on a started session and the
  overlay has no \<^verbatim>\<open>min_latency\<close> key, the final \<^verbatim>\<open>min_latency\<close> is a finite number not
  below 0, and it is exactly 0 if no strictly positive \<^verbatim>\<open>total_latency\<close> was submitted.
\<close>

theorem min_latency_after_end:
  assumes "end_session now ov env (started t0 calls s0) = (Returned, s')"
    and "overlay_at ov ''min_latency'' = None"
  shows "finite_nonneg (session_data s' ''min_latency'') \<and>
         (positives ''total_latency'' (map snd calls) = [] \<longrightarrow>
            session_data s' ''min_latency'' = Some (VNum 0))"
proof -
  let ?L = "positives ''total_latency'' (map snd calls)"
  note run = started_running(1)[of t0 calls s0]
  note d = end_session_data(4)[OF run assms(1) refl]
  have "num_at (session_data (started t0 calls s0)) ''min_latency'' = Some (Min (set (PInf # ?L)))"
    using started_counts[of t0 calls s0] unfolding counts_def
    by (simp add: positives_stamped)
  then obtain w where w: "session_data (started t0 calls s0) ''min_latency'' = Some w"
    "num_of w = Some (Min (set (PInf # ?L)))"
    using num_atD by blast
  have c: "closed_data env t0 now ov (session_data (started t0 calls s0)) ''min_latency'' = Some w"
    using assms(2) w(1) by (simp add: closed_data_lookup)
  have final: "session_data s' ''min_latency'' = Some (if is_inf w then VNum 0 else w)"
    using d c by simp
  have empty: "?L = [] \<Longrightarrow> is_inf w" using w(2) by (simp add: is_inf_def)
  define M where "M = Min (set (PInf # ?L))"
  have wM: "num_of w = Some M" using w(2) by (simp only: M_def)
  have "finite_nonneg (Some (if is_inf w then VNum 0 else w))"
  proof (cases "is_inf w")
    case True
    then show ?thesis by (simp add: finite_nonneg_def)
  next
    case False
    then have ne: "M \<noteq> PInf" using wM by (simp add: is_inf_def)
    have "M \<in> set (PInf # ?L)" unfolding M_def by (rule Min_in) simp_all
    then have "M \<in> set ?L" using ne by auto
    then have "Fin 0 < M" by (rule positives_positive)
    then obtain x where "M = Fin x" "0 < x"
      using ne by (cases M) auto
    then show ?thesis using False wM by (simp add: finite_nonneg_def)
  qed
  then show ?thesis using final empty by simp
qed

text \<open>The scenario of total latencies 0.5, 1.5, 2.5 ended without an overlay: the sum 4.5
  and its third are reached without rounding, and the average is 1.5.\<close>

lemma qualifying_three_turns:
  "qualifying ''total_latency'' (map snd three_turns) = [Fin (1/2), Fin (3/2), Fin (5/2)]"
  by (simp add: three_turns_def plain_turn_def qualifying_def positives_def measured_def
      flagged_interrupted_def)

lemma exact_three_turns:
  "exact_on all_ok ''total_latency'' [Fin (1/2), Fin (3/2), Fin (5/2)]"
  by (simp add: exact_on_def all_ok_def)

lemma float_mean_three_turns:
  "float_mean all_ok ''total_latency'' [Fin (1/2), Fin (3/2), Fin (5/2)] = Inr (Fin (3/2))"
  by (simp add: float_mean_exact exact_three_turns mean_def)

theorem averages_after_end_witness:
  "end_session clock1 None all_ok (started clock0 three_turns (new_logger ''metrics'')) =
     (Returned, snd (end_session clock1 None all_ok (started clock0 three_turns (new_logger ''metrics''))))
   \<and> ''total_latency'' \<in> set metrics_to_avg
   \<and> exact_on all_ok ''total_latency'' (qualifying ''total_latency'' (map snd three_turns))
   \<and> session_data (snd (end_session clock1 None all_ok
         (started clock0 three_turns (new_logger ''metrics'')))) ''avg_total_latency'' =
       Some (VNum (3/2))"
proof -
  have r: "fst (end_session clock1 None all_ok (started clock0 three_turns (new_logger ''metrics''))) = Returned"
    by code_simp
  have e: "end_session clock1 None all_ok (started clock0 three_turns (new_logger ''metrics'')) =
     (Returned, snd (end_session clock1 None all_ok (started clock0 three_turns (new_logger ''metrics''))))"
    using r by (metis prod.collapse)
  have m: "''total_latency'' \<in> set metrics_to_avg" by (simp add: metrics_to_avg_def)
  show ?thesis
    using averages_after_end[OF e m] e m exact_three_turns
    by (simp add: qualifying_three_turns float_mean_three_turns mean_def)
qed

text \<open>
  C2 as stated fails: with no qualifying value for \<^verbatim>\<open>ttft\<close> and an overlay that carries
  \<^verbatim>\<open>avg_ttft = 7\<close>, the final state holds 7, not 0.
\<close>

theorem averages_after_end_counterexample:
  "fst (end_session clock1 (Some [''avg_ttft'' \<mapsto> VNum 7]) all_ok
          (started clock0 no_turns (new_logger ''metrics''))) = Returned
   \<and> qualifying ''ttft'' (map snd no_turns) = []
   \<and> session_data (snd (end_session clock1 (Some [''avg_ttft'' \<mapsto> VNum 7]) all_ok
          (started clock0 no_turns (new_logger ''metrics'')))) ''avg_ttft'' = Some (VNum 7)"
  by code_simp

text \<open>
  \<^verbatim>\<open>start_session\<close> initialises \<^verbatim>\<open>avg_latency\<close>, while \<^verbatim>\<open>_calculate_averages\<close> writes
  \<^verbatim>\<open>avg_total_latency\<close>: with no qualifying total latency the final state has no
  \<^verbatim>\<open>avg_total_latency\<close> entry at all, and \<^verbatim>\<open>avg_latency\<close> stays 0 whatever was measured.
\<close>

lemma avg_total_latency_never_initialised:
  "fst (end_session clock1 None all_ok (started clock0 no_turns (new_logger ''metrics''))) = Returned
   \<and> session_data (snd (end_session clock1 None all_ok
        (started clock0 no_turns (new_logger ''metrics'')))) ''avg_total_latency'' = None
   \<and> session_data (snd (end_session clock1 None all_ok
        (started clock0 three_turns (new_logger ''metrics'')))) ''avg_latency'' = Some (VNum 0)"
  by code_simp

text \<open>The scenario of the overlay \<^verbatim>\<open>{"total_turns": 999}\<close> after two turns.\<close>

theorem overlay_entries_after_end_witness:
  "[''total_turns'' \<mapsto> VNum 999] ''total_turns'' = Some (VNum 999)
   \<and> session_data (snd (end_session clock1 (Some [''total_turns'' \<mapsto> VNum 999]) all_ok
        (started clock0 [plain_turn 1, plain_turn 2] (new_logger ''metrics'')))) ''total_turns'' =
       Some (VNum 999)"
  using overlay_entries_after_end[where ov = "[''total_turns'' \<mapsto> VNum 999]"
      and k = "''total_turns''" and v = "VNum 999"
      and calls = "[plain_turn 1, plain_turn 2]" and now = clock1 and env = all_ok
      and ?t0.0 = clock0 and ?s0.0 = "new_logger ''metrics''"]
  by (simp add: metrics_to_avg_def)

text \<open>
  C3 as stated fails: the overlay carries \<^verbatim>\<open>avg_ttft = 99\<close>, one admitted turn has
  \<^verbatim>\<open>ttft = 1\<close>, and the final state holds the recomputed average 1.
\<close>

theorem overlay_entries_after_end_counterexample:
  "[''avg_ttft'' \<mapsto> VNum 99] ''avg_ttft'' = Some (VNum 99)
   \<and> fst (end_session clock1 (Some [''avg_ttft'' \<mapsto> VNum 99]) all_ok
        (started clock0 [ttft_turn] (new_logger ''metrics''))) = Returned
   \<and> session_data (snd (end_session clock1 (Some [''avg_ttft'' \<mapsto> VNum 99]) all_ok
        (started clock0 [ttft_turn] (new_logger ''metrics'')))) ''avg_ttft'' = Some (VNum 1)"
  by code_simp

text \<open>A session with no turns, ended without an overlay.\<close>

theorem min_latency_after_end_witness:
  "end_session clock1 None all_ok (started clock0 no_turns (new_logger ''metrics'')) =
     (Returned, snd (end_session clock1 None all_ok (started clock0 no_turns (new_logger ''metrics''))))
   \<and> overlay_at None ''min_latency'' = None
   \<and> positives ''total_latency'' (map snd no_turns) = []
   \<and> finite_nonneg (session_data (snd (end_session clock1 None all_ok
         (started clock0 no_turns (new_logger ''metrics'')))) ''min_latency'')
   \<and> session_data (snd (end_session clock1 None all_ok
         (started clock0 no_turns (new_logger ''metrics'')))) ''min_latency'' = Some (VNum 0)"
proof -
  have r: "fst (end_session clock1 None all_ok (started clock0 no_turns (new_logger ''metrics''))) = Returned"
    by code_simp
  have e: "end_session clock1 None all_ok (started clock0 no_turns (new_logger ''metrics'')) =
     (Returned, snd (end_session clock1 None all_ok (started clock0 no_turns (new_logger ''metrics''))))"
    using r by (metis prod.collapse)
  have o: "overlay_at None ''min_latency'' = None" by (simp add: overlay_at_def)
  have p: "positives ''total_latency'' (map snd no_turns) = []" by (simp add: no_turns_def)
  show ?thesis
    using min_latency_after_end[OF e o] e o p by (simp add: finite_nonneg_def)
qed

text \<open>
  C6 as stated fails: an overlay with \<^verbatim>\<open>min_latency = -1\<close> is merged before the
  normalisation, which only replaces infinity, so the final state holds -1.
\<close>

theorem min_latency_after_end_counterexample:
  "fst (end_session clock1 (Some [''min_latency'' \<mapsto> VNum (- 1)]) all_ok
        (started clock0 no_turns (new_logger ''metrics''))) = Returned
   \<and> session_data (snd (end_session clock1 (Some [''min_latency'' \<mapsto> VNum (- 1)]) all_ok
        (started clock0 no_turns (new_logger ''metrics'')))) ''min_latency'' = Some (VNum (- 1))
   \<and> \<not> finite_nonneg (session_data (snd (end_session clock1 (Some [''min_latency'' \<mapsto> VNum (- 1)])
        all_ok (started clock0 no_turns (new_logger ''metrics'')))) ''min_latency'')"
  by code_simp

text \<open>
  C7 (as the code has it). When \<^verbatim>\<open>end_session\<close> returns on a started session and the
  primary export runs through, it writes exactly one new artifact, the workbook. If no
  admitted turn is left after dropping the interrupted ones, the workbook has no Latency
  Analysis table. Otherwise the table ends with the three threshold rows, counting the
  qualifying total latencies above 2.0, above 1.0 and below 0.5, and before them, only
  when some qualifying total latency exists, it has one row for each of Total Latency,
  EOU Delay, TTFT and TTFB with the count, the minimum, the maximum and the
  interpreter's mean of that metric's qualifying values (0 throughout for a metric
  without any).
\<close>

theorem latency_analysis_table:
  assumes "end_session now ov env (started t0 calls s0) = (Returned, s')"
    and "excel_ok env"
  shows "written s' = written s0 @ [last (written s')] \<and>
         (case sheet ''Latency_Analysis'' (last (written s')) of
            None \<Rightarrow> filter (\<lambda>c. \<not> flagged_interrupted (snd c)) calls = []
          | Some rows \<Rightarrow>
              filter (\<lambda>c. \<not> flagged_interrupted (snd c)) calls \<noteq> [] \<and>
              list_all2 (\<lambda>p row. p row) (analysis_rows env (map snd calls)) rows)"
proof -
  let ?s = "started t0 calls s0"
  note run = started_running(1)[of t0 calls s0]
  note ph = end_session_returned_phase[OF run assms(1)]
  let ?s4 = "?s\<lparr>session_data := session_data s'\<rparr>"
  note ex = end_session_export[OF run assms(1) ph]
  have tm: "turn_metrics ?s4 = map (stamp_call t0) calls" by (simp add: started_running(2))
  have num: "\<forall>m\<in>set metrics_to_avg. list_all (numeric m) (valid_turns (turn_metrics ?s4))"
    using ex(5) by simp
  have fm: "\<forall>m\<in>set metrics_to_avg. qualifying m (turn_metrics ?s4) \<noteq> [] \<longrightarrow>
              (\<exists>a. float_mean env m (qualifying m (turn_metrics ?s4)) = Inr a)"
    using ex(6) by simp
  note cl = create_latency_analysis_sheet_numeric[OF num fm, unfolded tm valid_stamped
      analysis_rows_stamped]
  obtain a where a: "create_latency_analysis_sheet env (map (stamp_call t0) calls) = Inr a"
    and a_rows: "case a of
        None \<Rightarrow> filter (\<lambda>c. \<not> flagged_interrupted (snd c)) calls = []
      | Some rows \<Rightarrow>
          filter (\<lambda>c. \<not> flagged_interrupted (snd c)) calls \<noteq> [] \<and>
          list_all2 (\<lambda>p row. p row) (analysis_rows env (map snd calls)) rows"
    using cl by (auto split: if_splits)
  have a4: "create_latency_analysis_sheet env (turn_metrics ?s4) = Inr a"
    using a by (simp only: tm)
  have sv: "save_to_excel env ?s4 =
      (Returned, emit INFO ''Metrics saved''
         (?s4\<lparr>written := written ?s4 @ [Workbook (export_id t0 ov) (workbook_sheets ?s4 a)]\<rparr>))"
    by (rule save_to_excel_ok[OF ex(2) assms(2) a4])
  have eq: "s' = snd (log_session_end (snd (save_to_excel env ?s4)))"
    using ex(1) by (metis snd_conv)
  have "written s' = written (snd (log_session_end (snd (save_to_excel env ?s4))))"
    by (rule arg_cong[OF eq])
  also have "\<dots> = written (snd (save_to_excel env ?s4))"
    by (simp add: log_session_end_frame)
  also have "\<dots> = written s0 @ [Workbook (export_id t0 ov) (workbook_sheets ?s4 a)]"
    unfolding sv by (simp add: emit_def started_running(3))
  finally have w: "written s' = written s0 @ [Workbook (export_id t0 ov) (workbook_sheets ?s4 a)]" .
  have "sheet ''Latency_Analysis'' (last (written s')) = a"
    unfolding w by (simp add: sheet_def map_of_latency_analysis)
  then show ?thesis using a_rows w by simp
qed

text \<open>The table of the scenario with total latencies 0.5, 1.5, 2.5.\<close>

theorem latency_analysis_table_witness:
  "end_session clock1 None all_ok (started clock0 three_turns (new_logger ''metrics'')) =
     (Returned, snd (end_session clock1 None all_ok (started clock0 three_turns (new_logger ''metrics''))))
   \<and> excel_ok all_ok
   \<and> (case sheet ''Latency_Analysis'' (last (written (snd (end_session clock1 None all_ok
          (started clock0 three_turns (new_logger ''metrics'')))))) of
        Some rows \<Rightarrow>
          list_all2 (\<lambda>p row. p row)
            [summarises all_ok ''total_latency'' ''Total Latency'' [Fin (1/2), Fin (3/2), Fin (5/2)],
             summarises all_ok ''eou_delay'' ''EOU Delay'' [],
             summarises all_ok ''ttft'' ''TTFT'' [],
             summarises all_ok ''ttfb'' ''TTFB'' [],
             tallies ''Turns > 2s latency'' 1, tallies ''Turns > 1s latency'' 2,
             tallies ''Turns < 0.5s latency'' 0] rows \<and>
          map (\<lambda>row. row ''Average'') (take 1 rows) = [Some (VNum (3/2))]
      | None \<Rightarrow> False)"
proof -
  have r: "fst (end_session clock1 None all_ok (started clock0 three_turns (new_logger ''metrics''))) = Returned"
    by code_simp
  have e: "end_session clock1 None all_ok (started clock0 three_turns (new_logger ''metrics'')) =
     (Returned, snd (end_session clock1 None all_ok (started clock0 three_turns (new_logger ''metrics''))))"
    using r by (metis prod.collapse)
  have k: "excel_ok all_ok" by (simp add: all_ok_def)
  have q: "qualifying ''eou_delay'' (map snd three_turns) = []"
    "qualifying ''ttft'' (map snd three_turns) = []"
    "qualifying ''ttfb'' (map snd three_turns) = []"
    by (simp_all add: three_turns_def plain_turn_def qualifying_def positives_def measured_def
      flagged_interrupted_def)
  have f: "filter (\<lambda>c. \<not> flagged_interrupted (snd c)) three_turns \<noteq> []"
    by (simp add: three_turns_def plain_turn_def flagged_interrupted_def)
  have a: "analysis_rows all_ok (map snd three_turns) =
     [summarises all_ok ''total_latency'' ''Total Latency'' [Fin (1/2), Fin (3/2), Fin (5/2)],
      summarises all_ok ''eou_delay'' ''EOU Delay'' [],
      summarises all_ok ''ttft'' ''TTFT'' [],
      summarises all_ok ''ttfb'' ''TTFB'' [],
      tallies ''Turns > 2s latency'' 1, tallies ''Turns > 1s latency'' 2,
      tallies ''Turns < 0.5s latency'' 0]"
    by (simp add: analysis_rows_def qualifying_three_turns q eval_nat_numeral)
  show ?thesis
    using latency_analysis_table[OF e k] e k f unfolding a
    by (auto simp add: list_all2_Cons1 summarises_def float_mean_three_turns split: option.splits)
qed

text \<open>
  C7 as stated fails: a turn that measured only \<^verbatim>\<open>eou_delay\<close> gives a table of the three
  threshold rows, with no EOU Delay row although one value qualifies; and a session
  whose only turn is interrupted gives a workbook without the table.
\<close>

theorem latency_analysis_table_counterexample:
  "qualifying ''eou_delay'' [eou_only] = [Fin (1/4)]
   \<and> fst (end_session clock1 None all_ok
          (started clock0 [(clock0, eou_only)] (new_logger ''metrics''))) = Returned
   \<and> (case sheet ''Latency_Analysis'' (last (written (snd (end_session clock1 None all_ok
          (started clock0 [(clock0, eou_only)] (new_logger ''metrics'')))))) of
         Some rows \<Rightarrow>
           map (\<lambda>row. row ''Metric'') rows =
             [Some (VStr ''Turns > 2s latency''), Some (VStr ''Turns > 1s latency''),
              Some (VStr ''Turns < 0.5s latency'')]
       | None \<Rightarrow> False)
   \<and> (case sheet ''Latency_Analysis'' (last (written (snd (end_session clock1 None all_ok
          (started clock0 [(clock0, cut_off)] (new_logger ''metrics'')))))) of
         None \<Rightarrow> True | Some rows \<Rightarrow> False)"
  by code_simp



text \<open>
  C8 (as the code has it). For a started session on which \<^verbatim>\<open>end_session\<close> returns when
  the primary export runs through: when the primary export fails, \<^verbatim>\<open>end_session\<close>
  returns as well. It writes the Session Summary as one delimited-text artifact holding
  the final session state as its single row; it writes the Turn Details as a second one,
  with one row per admitted turn in order, only when the session has at least one turn.
  A failure of either write is logged as an error and swallowed, and what was written
  before it stays. Before the fallback, the failed primary export has left what the
  writer could still save, if anything.
\<close>

theorem fallback_export:
  assumes "fst (end_session now ov (working env) (started t0 calls s0)) = Returned"
    and "\<not> excel_ok env"
    and "end_session now ov env (started t0 calls s0) = (r, s')"
  shows "r = Returned \<and>
         written s' = written s0 @ leftover env (export_id t0 ov) @
           (if session_csv_ok env
            then SessionCsv (export_id t0 ov) [session_data s'] #
                 (if calls \<noteq> [] \<and> turn_csv_ok env
                  then [TurnCsv (export_id t0 ov) (map (stamp_call t0) calls)] else [])
            else []) \<and>
         logged s' = logged (started t0 calls s0) @
           [(ERROR, ''Failed to save metrics to Excel''),
            (if session_csv_ok env \<and> (calls = [] \<or> turn_csv_ok env)
             then (INFO, ''Metrics saved as CSV files'')
             else (ERROR, ''Failed to save CSV fallback'')),
            (INFO, ''Session ended''), (INFO, ''Duration, Turns'')]"
proof -
  let ?s = "started t0 calls s0"
  note run = started_running(1)[of t0 calls s0]
  obtain sw where ew: "end_session now ov (working env) ?s = (Returned, sw)"
    using assms(1) by (metis prod.collapse)
  note phw = end_session_returned_phase[OF run ew]
  note ph = phw[unfolded calculate_averages_working closed_data_working]
  let ?s4 = "?s\<lparr>session_data := session_data s'\<rparr>"
  note ex = end_session_export[OF run assms(3) ph]
  note exw = end_session_export[OF run ew phw]
  have same: "session_data sw = session_data s'"
    unfolding ex(7) exw(7) calculate_averages_working closed_data_working by (rule refl)
  let ?s5 = "snd (save_to_excel env ?s4)"
  have sv: "save_to_excel env ?s4 =
     save_as_csv_fallback env (export_id t0 ov)
       (emit ERROR ''Failed to save metrics to Excel''
          (?s4\<lparr>written := written ?s4 @ leftover env (export_id t0 ov)\<rparr>))"
    by (rule save_to_excel_failing[OF ex(2) assms(2)])
  have s5: "written ?s5 = written s0 @ leftover env (export_id t0 ov) @
           (if session_csv_ok env
            then SessionCsv (export_id t0 ov) [session_data s'] #
                 (if calls \<noteq> [] \<and> turn_csv_ok env
                  then [TurnCsv (export_id t0 ov) (map (stamp_call t0) calls)] else [])
            else [])"
    "logged ?s5 = logged ?s @
           [(ERROR, ''Failed to save metrics to Excel''),
            (if session_csv_ok env \<and> (calls = [] \<or> turn_csv_ok env)
             then (INFO, ''Metrics saved as CSV files'')
             else (ERROR, ''Failed to save CSV fallback''))]"
    "session_data ?s5 = session_data s'"
    unfolding sv save_as_csv_fallback_closed
    by (auto simp add: emit_def started_running(2) started_running(3))
  have "session_data (snd (save_to_excel (working env) (?s\<lparr>session_data := session_data sw\<rparr>))) =
        session_data ?s5"
    using save_to_excel_returns(2)[OF exw(2)] s5(3) same by simp
  then have "fst (log_session_end ?s5) =
      fst (log_session_end (snd (save_to_excel (working env) (?s\<lparr>session_data := session_data sw\<rparr>))))"
    by (rule log_session_end_outcome[symmetric])
  also have "\<dots> = Returned" using exw(1) by (metis fst_conv)
  finally have "log_session_end ?s5 =
      (Returned, emit INFO ''Duration, Turns'' (emit INFO ''Session ended'' ?s5))"
    by (rule log_session_end_returned)
  then have both: "(r, s') = (Returned, emit INFO ''Duration, Turns'' (emit INFO ''Session ended'' ?s5))"
    using ex(1) by simp
  have r: "r = Returned" using both by (rule Pair_inject)
  have eq: "s' = emit INFO ''Duration, Turns'' (emit INFO ''Session ended'' ?s5)"
    using both by (rule Pair_inject)
  have "written s' = written (emit INFO ''Duration, Turns'' (emit INFO ''Session ended'' ?s5))"
    by (rule arg_cong[OF eq])
  also have "\<dots> = written ?s5" by (simp add: emit_def)
  finally have w: "written s' = written ?s5" .
  have "logged s' = logged (emit INFO ''Duration, Turns'' (emit INFO ''Session ended'' ?s5))"
    by (rule arg_cong[OF eq])
  also have "\<dots> = logged ?s5 @ [(INFO, ''Session ended''), (INFO, ''Duration, Turns'')]"
    by (simp add: emit_def)
  finally have l: "logged s' = logged ?s5 @ [(INFO, ''Session ended''), (INFO, ''Duration, Turns'')]" .
  show ?thesis
    unfolding w l s5(1) s5(2) using r by simp
qed

text \<open>The scenario of three turns when the primary export fails at the Latency Analysis
  sheet: the call returns; the writer has saved the two sheets written before, and the
  two delimited-text artifacts follow, the second with the three stamped records.\<close>

theorem fallback_export_witness:
  "fst (end_session clock1 None (working excel_fails_late)
          (started clock0 three_turns (new_logger ''metrics''))) = Returned
   \<and> \<not> excel_ok excel_fails_late
   \<and> fst (end_session clock1 None excel_fails_late
          (started clock0 three_turns (new_logger ''metrics''))) = Returned
   \<and> written (snd (end_session clock1 None excel_fails_late
         (started clock0 three_turns (new_logger ''metrics'')))) =
       [Workbook (VStr ''20240101_000000'')
          [(''Session_Summary'',
            [session_data (snd (end_session clock1 None all_ok
               (started clock0 three_turns (new_logger ''metrics''))))]),
           (''Turn_Details'',
            [stamp_call clock0 (plain_turn (1/2)), stamp_call clock0 (plain_turn (3/2)),
             stamp_call clock0 (plain_turn (5/2))])],
        SessionCsv (VStr ''20240101_000000'')
          [session_data (snd (end_session clock1 None excel_fails_late
             (started clock0 three_turns (new_logger ''metrics''))))],
        TurnCsv (VStr ''20240101_000000'')
          [stamp_call clock0 (plain_turn (1/2)), stamp_call clock0 (plain_turn (3/2)),
           stamp_call clock0 (plain_turn (5/2))]]"
proof -
  have w: "fst (end_session clock1 None (working excel_fails_late)
          (started clock0 three_turns (new_logger ''metrics''))) = Returned"
    by code_simp
  have p: "\<not> excel_ok excel_fails_late"
    by (simp add: excel_fails_late_def)
  have e: "end_session clock1 None excel_fails_late (started clock0 three_turns (new_logger ''metrics'')) =
     (fst (end_session clock1 None excel_fails_late (started clock0 three_turns (new_logger ''metrics''))),
      snd (end_session clock1 None excel_fails_late (started clock0 three_turns (new_logger ''metrics''))))"
    by simp
  have l: "leftover excel_fails_late (VStr ''20240101_000000'') =
       [Workbook (VStr ''20240101_000000'')
          [(''Session_Summary'',
            [session_data (snd (end_session clock1 None all_ok
               (started clock0 three_turns (new_logger ''metrics''))))]),
           (''Turn_Details'',
            [stamp_call clock0 (plain_turn (1/2)), stamp_call clock0 (plain_turn (3/2)),
             stamp_call clock0 (plain_turn (5/2))])]]"
    by (simp add: leftover_def excel_fails_late_def three_turns_def)
  have x: "export_id clock0 None = VStr ''20240101_000000''"
    by (simp add: export_id_def overlay_at_def clock0_def)
  have c: "session_csv_ok excel_fails_late" "turn_csv_ok excel_fails_late"
    by (simp_all add: excel_fails_late_def all_ok_def)
  show ?thesis
    using fallback_export[OF w p e] w p unfolding x l
    by (simp add: c three_turns_def new_logger_def)
qed

text \<open>
  C8 as stated fails: for a session without turns whose primary export fails, the
  fallback writes the Session Summary artifact only; no Turn Details artifact exists.
\<close>

theorem fallback_export_counterexample:
  "\<not> excel_ok excel_fails
   \<and> fst (end_session clock1 None excel_fails (started clock0 no_turns (new_logger ''metrics''))) = Returned
   \<and> (case written (snd (end_session clock1 None excel_fails
          (started clock0 no_turns (new_logger ''metrics'')))) of
        [SessionCsv sid rows] \<Rightarrow> True | _ \<Rightarrow> False)"
  by code_simp

text \<open>
  Line 102 formats the \<^verbatim>\<open>duration\<close> entry with \<^verbatim>\<open>:.2f\<close> after the export: an overlay that
  replaces it with a string makes \<^verbatim>\<open>end_session\<close> raise \<^verbatim>\<open>ValueError\<close>, whether or not the
  primary export failed, with the artifacts already written.
\<close>

lemma duration_overlay_raises:
  "fst (end_session clock1 (Some [''duration'' \<mapsto> VStr ''soon'']) excel_fails
          (started clock0 no_turns (new_logger ''metrics''))) = Raised ValueError
   \<and> fst (end_session clock1 (Some [''duration'' \<mapsto> VStr ''soon'']) all_ok
          (started clock0 no_turns (new_logger ''metrics''))) = Raised ValueError
   \<and> length (written (snd (end_session clock1 (Some [''duration'' \<mapsto> VStr ''soon'']) excel_fails
          (started clock0 no_turns (new_logger ''metrics''))))) = 1"
  by code_simp

end
